theory Spec2Isabelle
  imports Complex_Main "HOL-Library.Word"
begin

section \<open>JavaScript values, strings and thrown values\<close>

text \<open>
  A JavaScript string is a sequence of UTF-16 code units. ASCII literals of the source are
  written through \<open>ascii\<close>.
\<close>

type_synonym js_string = "16 word list"

definition ascii :: "string \<Rightarrow> js_string" where
  "ascii s = map (\<lambda>c. of_nat (of_char c)) s"

text \<open>
  \<open>String.prototype.trim\<close> removes WhiteSpace and LineTerminator code points from both
  ends: TAB, LF, VT, FF, CR, SP, NBSP, the Unicode space separators, LS, PS and the BOM.
\<close>

definition is_white_space :: "16 word \<Rightarrow> bool" where
  "is_white_space c =
     (c \<in> set [0x9, 0xA, 0xB, 0xC, 0xD, 0x20, 0xA0, 0x1680, 0x2028, 0x2029, 0x202F,
                0x205F, 0x3000, 0xFEFF]
      \<or> (0x2000 \<le> c \<and> c \<le> 0x200A))"

definition trim :: "js_string \<Rightarrow> js_string" where
  "trim s = rev (dropWhile is_white_space (rev (dropWhile is_white_space s)))"

text \<open>
  The values a JSON request body or a configuration field can hold. A finite Number is
  modelled by the real it denotes (\<open>-0\<close> and \<open>0\<close> are both \<open>JNumber 0\<close>, and both are
  falsy); \<open>NaN\<close> and the two infinities are values of their own.
\<close>

datatype js_value =
    JUndefined
  | JNull
  | JBoolean bool
  | JNumber real
  | JNaN
  | JInfinity
  | JNegInfinity
  | JString js_string
  | JObject

fun js_truthy :: "js_value \<Rightarrow> bool" where
  "js_truthy JUndefined = False"
| "js_truthy JNull = False"
| "js_truthy (JBoolean b) = b"
| "js_truthy (JNumber r) = (r \<noteq> 0)"
| "js_truthy JNaN = False"
| "js_truthy JInfinity = True"
| "js_truthy JNegInfinity = True"
| "js_truthy (JString s) = (s \<noteq> [])"
| "js_truthy JObject = True"

fun js_typeof :: "js_value \<Rightarrow> string" where
  "js_typeof JUndefined = ''undefined''"
| "js_typeof JNull = ''object''"
| "js_typeof (JBoolean b) = ''boolean''"
| "js_typeof (JNumber r) = ''number''"
| "js_typeof JNaN = ''number''"
| "js_typeof JInfinity = ''number''"
| "js_typeof JNegInfinity = ''number''"
| "js_typeof (JString s) = ''string''"
| "js_typeof JObject = ''object''"

text \<open>The operator \<open>a || b\<close>: the left operand when it is truthy, the right one otherwise.\<close>

definition js_or :: "js_value \<Rightarrow> js_value \<Rightarrow> js_value" where
  "js_or a b = (if js_truthy a then a else b)"

text \<open>
  A thrown value is an \<open>Error\<close> object (a \<open>TypeError\<close> is one) with its message, or some
  other value; \<open>error instanceof Error\<close> tells them apart.
\<close>

datatype js_thrown = Error (message: js_string) | NonError js_value

subsection \<open>\<open>parseInt\<close> without a radix\<close>

text \<open>
  Leading white space is skipped, a sign is read, a \<open>0x\<close> or \<open>0X\<close> prefix selects radix
  16, and the longest prefix of digits is converted; no digit gives \<open>NaN\<close>. The result is
  a Number, that is a double: the integer read, rounded to the nearest integer with a
  53-bit significand (a tie goes to the even significand), and an infinity from
  \<open>2 ^ 1024\<close> on. Below \<open>2 ^ 53\<close> nothing is rounded.
\<close>

fun bit_length :: "nat \<Rightarrow> nat" where
  "bit_length n = (if n = 0 then 0 else Suc (bit_length (n div 2)))"

declare bit_length.simps [simp del]

definition round_to_double :: "nat \<Rightarrow> nat option" where
  "round_to_double n =
     (if n < 2 ^ 53 then Some n
      else (let e = bit_length n - 53;
                q = n div 2 ^ e;
                r = n mod 2 ^ e;
                q' = (if 2 * r > 2 ^ e \<or> (2 * r = 2 ^ e \<and> odd q) then q + 1 else q)
            in if q' * 2 ^ e < 2 ^ 1024 then Some (q' * 2 ^ e) else None))"

definition to_number :: "bool \<Rightarrow> nat \<Rightarrow> js_value" where
  "to_number neg n =
     (case round_to_double n of
        None \<Rightarrow> if neg then JNegInfinity else JInfinity
      | Some v \<Rightarrow> JNumber (if neg then - real v else real v))"

definition digit_of :: "16 word \<Rightarrow> nat option" where
  "digit_of c =
     (if 0x30 \<le> c \<and> c \<le> 0x39 then Some (unat c - 0x30)
      else if 0x61 \<le> c \<and> c \<le> 0x7A then Some (unat c - 0x61 + 10)
      else if 0x41 \<le> c \<and> c \<le> 0x5A then Some (unat c - 0x41 + 10)
      else None)"

definition is_radix_digit :: "nat \<Rightarrow> 16 word \<Rightarrow> bool" where
  "is_radix_digit R c = (case digit_of c of None \<Rightarrow> False | Some d \<Rightarrow> d < R)"

definition digits_value :: "nat \<Rightarrow> js_string \<Rightarrow> nat" where
  "digits_value R Z =
     foldl (\<lambda>a c. a * R + (case digit_of c of None \<Rightarrow> 0 | Some d \<Rightarrow> d)) 0 Z"

definition parseInt :: "js_string \<Rightarrow> js_value" where
  "parseInt inputString =
     (let S0 = dropWhile is_white_space inputString;
          neg = (case S0 of [] \<Rightarrow> False | c # _ \<Rightarrow> c = 0x2D);
          S1 = (case S0 of [] \<Rightarrow> [] | c # r \<Rightarrow> if c = 0x2B \<or> c = 0x2D then r else S0);
          hex = (take 2 S1 = ascii ''0x'' \<or> take 2 S1 = ascii ''0X'');
          R = (if hex then 16 else 10);
          S2 = (if hex then drop 2 S1 else S1);
          Z = takeWhile (is_radix_digit R) S2
      in if Z = [] then JNaN else to_number neg (digits_value R Z))"

text \<open>\<open>String(n)\<close> of a natural number, as a template literal prints an index.\<close>

fun nat_to_string :: "nat \<Rightarrow> js_string" where
  "nat_to_string n =
     (if n < 10 then [of_nat (0x30 + n)]
      else nat_to_string (n div 10) @ [of_nat (0x30 + n mod 10)])"

declare nat_to_string.simps [simp del]

text \<open>The code units \<open>0\<close> to \<open>9\<close>.\<close>

definition is_decimal :: "16 word \<Rightarrow> bool" where
  "is_decimal c = (\<exists>d < 10. c = of_nat (0x30 + d))"

text \<open>\<open>Array.prototype.join\<close> on an array of strings.\<close>

fun js_join :: "js_string \<Rightarrow> js_string list \<Rightarrow> js_string" where
  "js_join sep [] = []"
| "js_join sep [x] = x"
| "js_join sep (x # y # ys) = x @ sep @ js_join sep (y # ys)"

section \<open>The RAG service (\<open>src/rag/rag.service.ts\<close>)\<close>

text \<open>
  The configuration read by the constructor. \<open>temperature\<close> is read with \<open>parseFloat\<close>
  and is used by none of the operations below; the record leaves it out.
\<close>

record RAGConfig =
  modelPath :: js_string
  embeddingModel :: js_string
  knowledgeBaseDir :: js_string
  faissIndexPath :: js_string
  chunkSize :: js_value
  chunkOverlap :: js_value
  topK :: js_value
  maxTokens :: js_value

text \<open>
  \<open>process.env.X || d\<close>: an unset variable is \<open>undefined\<close> and an empty one is the empty
  string; both are falsy.
\<close>

definition env_or :: "(string \<Rightarrow> js_string option) \<Rightarrow> string \<Rightarrow> string \<Rightarrow> js_string" where
  "env_or env name dflt =
     (case env name of
        None \<Rightarrow> ascii dflt
      | Some v \<Rightarrow> if v = [] then ascii dflt else v)"

text \<open>
  The handler object built by \<open>new ChatHandler(this.vectorStore, this.llm)\<close>: it stores
  the two references it is given. The language model and the vector store are objects of
  external libraries; their types are parameters.
\<close>

record ('l, 'v) ChatHandler =
  ch_vectorStore :: "'v option"
  ch_llm :: "'l option"

record ('l, 'v) RagService =
  llm :: "'l option"
  vectorStore :: "'v option"
  chatHandler :: "('l, 'v) ChatHandler option"
  isInitialized :: bool
  initializationPromise :: "nat option"
  config :: RAGConfig
  cleanupModel :: bool

definition RagService_constructor :: "(string \<Rightarrow> js_string option) \<Rightarrow> ('l, 'v) RagService" where
  "RagService_constructor env =
     \<lparr> llm = None,
       vectorStore = None,
       chatHandler = None,
       isInitialized = False,
       initializationPromise = None,
       config =
         \<lparr> modelPath = env_or env ''MODEL_PATH'' ''./models/rakutenai-2.0-mini-instruct-q4_k_m.gguf'',
           embeddingModel = env_or env ''EMBEDDING_MODEL'' ''Xenova/all-MiniLM-L6-v2'',
           knowledgeBaseDir = env_or env ''KNOWLEDGE_BASE_DIR'' ''./knowledge-base'',
           faissIndexPath = env_or env ''FAISS_INDEX_PATH'' ''./faiss-store'',
           chunkSize = parseInt (env_or env ''CHUNK_SIZE'' ''1000''),
           chunkOverlap = parseInt (env_or env ''CHUNK_OVERLAP'' ''200''),
           topK = parseInt (env_or env ''TOP_K'' ''3''),
           maxTokens = parseInt (env_or env ''MAX_TOKENS'' ''512'') \<rparr>,
       cleanupModel = False \<rparr>"

definition isReady :: "('l, 'v) RagService \<Rightarrow> bool" where
  "isReady s = (isInitialized s \<and> llm s \<noteq> None \<and> vectorStore s \<noteq> None)"

definition getTopK :: "('l, 'v) RagService \<Rightarrow> js_value" where
  "getTopK s = topK (config s)"

subsection \<open>The external operations \<open>_doInitialize\<close> awaits\<close>

text \<open>
  Every call that leaves the repository (module loading, the model loader, the file
  system, the Faiss store, the document loader) is answered by an oracle: \<open>None\<close> or
  \<open>Inr\<close> when it succeeds, the thrown value otherwise. Each resumption of the
  initialization is given the oracle of that moment.
\<close>

datatype fs_path = IndexDir | IndexFile | IndexParentDir

record ('l, 'v, 'd) externals =
  import_module :: "string \<Rightarrow> js_thrown option"
  loadModel :: "js_thrown option"
  new_ChatLlamaCpp :: "js_thrown + 'l"
  new_XenovaEmbeddings :: "js_thrown option"
  existsSync :: "fs_path \<Rightarrow> bool"
  mkdirSync :: "fs_path \<Rightarrow> js_thrown option"
  FaissStore_load :: "js_thrown + 'v"
  loadAndProcessDocuments :: "js_thrown + 'd list"
  FaissStore_fromDocuments :: "'d list \<Rightarrow> js_thrown + 'v"
  vectorStore_save :: "js_thrown option"
  new_FaissStore :: "'v"

text \<open>
  \<open>initializeVectorStore\<close> (\<open>src/rag/vectorStore.js\<close>): the parent directory is created
  when missing; an existing index path is loaded, and a failure of that load is logged
  and swallowed; otherwise, and after a failed load, a new empty store is returned.
\<close>

definition initializeVectorStore :: "('l, 'v, 'd) externals \<Rightarrow> js_thrown + 'v" where
  "initializeVectorStore ext =
     (case (if existsSync ext IndexParentDir then None else mkdirSync ext IndexParentDir) of
        Some e \<Rightarrow> Inl e
      | None \<Rightarrow>
          (if existsSync ext IndexDir
           then (case FaissStore_load ext of
                   Inr vs \<Rightarrow> Inr vs
                 | Inl e \<Rightarrow> Inr (new_FaissStore ext))
           else Inr (new_FaissStore ext)))"

text \<open>
  \<open>saveVectorStore\<close>: the parent directory is created when missing, then the store is
  saved; a failure of either is thrown.
\<close>

definition saveVectorStore :: "('l, 'v, 'd) externals \<Rightarrow> js_thrown option" where
  "saveVectorStore ext =
     (case (if existsSync ext IndexParentDir then None else mkdirSync ext IndexParentDir) of
        Some e \<Rightarrow> Some e
      | None \<Rightarrow> vectorStore_save ext)"

subsection \<open>\<open>_doInitialize\<close>, one resumption at a time\<close>

text \<open>
  The points at which \<open>_doInitialize\<close> is suspended, in the order of the source: the six
  dynamic imports, \<open>loadModel\<close>, and then either the import and load of the existing
  index, or the document load followed by the build and save of a new store or by
  \<open>initializeVectorStore\<close>. The documents are the one local variable that is read
  after a later suspension.
\<close>

datatype 'd init_pc =
    AwaitImport nat
  | AwaitLoadModel
  | AwaitImportFaissForLoad
  | AwaitFaissLoad
  | AwaitLoadDocuments
  | AwaitImportFaissForBuild "'d list"
  | AwaitFromDocuments "'d list"
  | AwaitSaveVectorStore
  | AwaitInitializeVectorStore

datatype 'd outcome = Suspend "'d init_pc" | Completed | Threw js_thrown

definition init_imports :: "string list" where
  "init_imports =
     [''../llm/modelLoader.js'', ''../llm/llamaAdapter.js'', ''./embeddings.js'',
      ''./vectorStore.js'', ''./documentLoader.js'', ''../chat/chatHandler.js'']"

text \<open>Step 4 of the source: the handler is created and the flag is set, with no suspension between.\<close>

definition finish_init :: "('l, 'v) RagService \<Rightarrow> 'd outcome \<times> ('l, 'v) RagService" where
  "finish_init s =
     (Completed,
      s\<lparr> chatHandler := Some \<lparr> ch_vectorStore = vectorStore s, ch_llm = llm s \<rparr>,
         isInitialized := True \<rparr>)"

text \<open>
  The body of the \<open>try\<close> block from one suspension to the next: the awaited operation's
  answer is read from the oracle, and the code runs on to the next \<open>await\<close>, to the end,
  or to a throw.
\<close>

fun doInitialize_try ::
  "('l, 'v, 'd) externals \<Rightarrow> 'd init_pc \<Rightarrow> ('l, 'v) RagService \<Rightarrow> 'd outcome \<times> ('l, 'v) RagService"
where
  "doInitialize_try ext (AwaitImport i) s =
     (if i < length init_imports
      then (case import_module ext (init_imports ! i) of
              Some e \<Rightarrow> (Threw e, s)
            | None \<Rightarrow>
                if Suc i < length init_imports then (Suspend (AwaitImport (Suc i)), s)
                else (Suspend AwaitLoadModel, s\<lparr> cleanupModel := True \<rparr>))
      else (Suspend AwaitLoadModel, s\<lparr> cleanupModel := True \<rparr>))"
| "doInitialize_try ext AwaitLoadModel s =
     (case loadModel ext of
        Some e \<Rightarrow> (Threw e, s)
      | None \<Rightarrow>
          (case new_ChatLlamaCpp ext of
             Inl e \<Rightarrow> (Threw e, s)
           | Inr l \<Rightarrow>
               (let s1 = s\<lparr> llm := Some l \<rparr> in
                case new_XenovaEmbeddings ext of
                  Some e \<Rightarrow> (Threw e, s1)
                | None \<Rightarrow>
                    (case (if existsSync ext IndexDir then None else mkdirSync ext IndexDir) of
                       Some e \<Rightarrow> (Threw e, s1)
                     | None \<Rightarrow>
                         if existsSync ext IndexFile then (Suspend AwaitImportFaissForLoad, s1)
                         else (Suspend AwaitLoadDocuments, s1)))))"
| "doInitialize_try ext AwaitImportFaissForLoad s =
     (case import_module ext ''@langchain/community/vectorstores/faiss'' of
        Some e \<Rightarrow> (Threw e, s)
      | None \<Rightarrow> (Suspend AwaitFaissLoad, s))"
| "doInitialize_try ext AwaitFaissLoad s =
     (case FaissStore_load ext of
        Inl e \<Rightarrow> (Threw e, s)
      | Inr vs \<Rightarrow> finish_init (s\<lparr> vectorStore := Some vs \<rparr>))"
| "doInitialize_try ext AwaitLoadDocuments s =
     (case loadAndProcessDocuments ext of
        Inl e \<Rightarrow> (Threw e, s)
      | Inr documents \<Rightarrow>
          if length documents > 0 then (Suspend (AwaitImportFaissForBuild documents), s)
          else (Suspend AwaitInitializeVectorStore, s))"
| "doInitialize_try ext (AwaitImportFaissForBuild documents) s =
     (case import_module ext ''@langchain/community/vectorstores/faiss'' of
        Some e \<Rightarrow> (Threw e, s)
      | None \<Rightarrow> (Suspend (AwaitFromDocuments documents), s))"
| "doInitialize_try ext (AwaitFromDocuments documents) s =
     (case FaissStore_fromDocuments ext documents of
        Inl e \<Rightarrow> (Threw e, s)
      | Inr vs \<Rightarrow> (Suspend AwaitSaveVectorStore, s\<lparr> vectorStore := Some vs \<rparr>))"
| "doInitialize_try ext AwaitSaveVectorStore s =
     (case saveVectorStore ext of
        Some e \<Rightarrow> (Threw e, s)
      | None \<Rightarrow> finish_init s)"
| "doInitialize_try ext AwaitInitializeVectorStore s =
     (case initializeVectorStore ext of
        Inl e \<Rightarrow> (Threw e, s)
      | Inr vs \<Rightarrow> finish_init (s\<lparr> vectorStore := Some vs \<rparr>))"

subsection \<open>Promises and the interleaving of calls\<close>

text \<open>
  Each call of \<open>_doInitialize\<close> returns a promise; the table holds one entry per call,
  in call order, so its length counts the initialization sequences ever started. A
  pending entry holds the suspension point of its sequence.
\<close>

datatype 'd promise = Pending "'d init_pc" | Fulfilled | Rejected js_thrown

record ('l, 'v, 'd) system =
  service :: "('l, 'v) RagService"
  promises :: "'d promise list"

definition boot :: "(string \<Rightarrow> js_string option) \<Rightarrow> ('l, 'v, 'd) system" where
  "boot env = \<lparr> service = RagService_constructor env, promises = [] \<rparr>"

text \<open>
  What a caller of \<open>initialize\<close> holds: nothing to wait for, or the promise it awaits
  (the first caller awaits \<open>this.initializationPromise\<close>; the others return it, so their
  own promise settles as it does).
\<close>

datatype handle = Immediate | Awaiting nat

text \<open>
  \<open>initialize\<close>, up to its first suspension. JavaScript runs it to that point without
  interleaving; \<open>_doInitialize\<close> is called inside it and runs up to its own first
  \<open>await\<close> (the first import), having changed nothing.
\<close>

definition initialize :: "('l, 'v, 'd) system \<Rightarrow> handle \<times> ('l, 'v, 'd) system" where
  "initialize sys =
     (if isInitialized (service sys) then (Immediate, sys)
      else (case initializationPromise (service sys) of
              Some p \<Rightarrow> (Awaiting p, sys)
            | None \<Rightarrow>
                (let p = length (promises sys) in
                 (Awaiting p,
                  sys\<lparr> promises := promises sys @ [Pending (AwaitImport 0)],
                       service := (service sys)\<lparr> initializationPromise := Some p \<rparr> \<rparr>))))"

text \<open>
  One resumption of the initialization behind promise \<open>p\<close>: the \<open>try\<close> block runs on; a
  throw is caught, the promise handle is cleared and the error is rethrown, which
  rejects the promise.
\<close>

definition doInitialize_resume ::
  "('l, 'v, 'd) externals \<Rightarrow> nat \<Rightarrow> ('l, 'v, 'd) system \<Rightarrow> ('l, 'v, 'd) system"
where
  "doInitialize_resume ext p sys =
     (if p < length (promises sys)
      then (case promises sys ! p of
              Pending pc \<Rightarrow>
                (case doInitialize_try ext pc (service sys) of
                   (Suspend pc', s') \<Rightarrow>
                     sys\<lparr> service := s', promises := (promises sys)[p := Pending pc'] \<rparr>
                 | (Completed, s') \<Rightarrow>
                     sys\<lparr> service := s', promises := (promises sys)[p := Fulfilled] \<rparr>
                 | (Threw e, s') \<Rightarrow>
                     sys\<lparr> service := s'\<lparr> initializationPromise := None \<rparr>,
                          promises := (promises sys)[p := Rejected e] \<rparr>)
            | Fulfilled \<Rightarrow> sys
            | Rejected e \<Rightarrow> sys)
      else sys)"

text \<open>
  \<open>getChatHandler\<close> up to its suspension, and what it returns once the promise it
  awaited has settled.
\<close>

definition getChatHandler_start :: "('l, 'v, 'd) system \<Rightarrow> handle \<times> ('l, 'v, 'd) system" where
  "getChatHandler_start sys =
     (if \<not> isInitialized (service sys) then initialize sys else (Immediate, sys))"

definition settled :: "('l, 'v, 'd) system \<Rightarrow> handle \<Rightarrow> (js_thrown + unit) option" where
  "settled sys h =
     (case h of
        Immediate \<Rightarrow> Some (Inr ())
      | Awaiting p \<Rightarrow>
          (if p < length (promises sys)
           then (case promises sys ! p of
                   Pending pc \<Rightarrow> None
                 | Fulfilled \<Rightarrow> Some (Inr ())
                 | Rejected e \<Rightarrow> Some (Inl e))
           else None))"

definition getChatHandler_finish ::
  "('l, 'v, 'd) system \<Rightarrow> handle \<Rightarrow> (js_thrown + ('l, 'v) ChatHandler) option"
where
  "getChatHandler_finish sys h =
     (case settled sys h of
        None \<Rightarrow> None
      | Some (Inl e) \<Rightarrow> Some (Inl e)
      | Some (Inr u) \<Rightarrow>
          (case chatHandler (service sys) of
             None \<Rightarrow> Some (Inl (Error (ascii ''Chat handler not available'')))
           | Some h \<Rightarrow> Some (Inr h)))"

text \<open>The warm-up endpoint (\<open>src/rag/rag.controller.ts\<close>) up to its suspension.\<close>

definition warmup_start :: "('l, 'v, 'd) system \<Rightarrow> handle \<times> ('l, 'v, 'd) system" where
  "warmup_start sys =
     (if isReady (service sys) then (Immediate, sys) else initialize sys)"

text \<open>
  The health endpoint: the status code and the \<open>rag\<close> object of the response (the
  timestamp is left out).
\<close>

record health_response =
  http_status :: nat
  status_text :: string
  rag_initialized :: bool
  rag_ready :: bool

definition checkHealth :: "('l, 'v) RagService \<Rightarrow> health_response" where
  "checkHealth s =
     (if isReady s
      then \<lparr> http_status = 200, status_text = ''healthy'', rag_initialized = True, rag_ready = True \<rparr>
      else \<lparr> http_status = 503, status_text = ''unhealthy'', rag_initialized = False, rag_ready = False \<rparr>)"

text \<open>
  Everything that can happen to the service, in any order: a call of \<open>initialize\<close>, of
  \<open>getChatHandler\<close> or of the warm-up endpoint, a resumption of a pending
  initialization, and \<open>onModuleDestroy\<close> (which calls the model loader's cleanup and
  leaves the service's fields alone).
\<close>

datatype ('l, 'v, 'd) event =
    CallInitialize
  | CallGetChatHandler
  | CallWarmup
  | Resume nat "('l, 'v, 'd) externals"
  | ModuleDestroy

fun step :: "('l, 'v, 'd) event \<Rightarrow> ('l, 'v, 'd) system \<Rightarrow> ('l, 'v, 'd) system" where
  "step CallInitialize sys = snd (initialize sys)"
| "step CallGetChatHandler sys = snd (getChatHandler_start sys)"
| "step CallWarmup sys = snd (warmup_start sys)"
| "step (Resume p ext) sys = doInitialize_resume ext p sys"
| "step ModuleDestroy sys = sys"

fun run :: "('l, 'v, 'd) event list \<Rightarrow> ('l, 'v, 'd) system \<Rightarrow> ('l, 'v, 'd) system" where
  "run [] sys = sys"
| "run (ev # evs) sys = run evs (step ev sys)"

text \<open>The promises still pending: the initialization sequences in flight.\<close>

definition in_flight :: "('l, 'v, 'd) system \<Rightarrow> nat list" where
  "in_flight sys =
     filter (\<lambda>p. case promises sys ! p of Pending pc \<Rightarrow> True | _ \<Rightarrow> False)
       [0 ..< length (promises sys)]"

text \<open>
  One initialization attempt under an oracle that stays the same: the call of
  \<open>initialize\<close>, then as many resumptions as the longest path of \<open>_doInitialize\<close> has
  suspensions (a settled promise is not resumed again).
\<close>

definition attempt :: "('l, 'v, 'd) externals \<Rightarrow> ('l, 'v, 'd) system \<Rightarrow> ('l, 'v, 'd) system" where
  "attempt ext sys =
     (case initialize sys of
        (Immediate, sys') \<Rightarrow> sys'
      | (Awaiting p, sys') \<Rightarrow> run (replicate 11 (Resume p ext)) sys')"

section \<open>The chat handler (\<open>src/chat/chatHandler.js\<close>)\<close>

record document =
  pageContent :: js_string

datatype chat_message = SystemMessage js_string | HumanMessage js_string | AIMessage js_string

record invoke_result =
  result_content :: js_value
  result_text :: js_value

text \<open>
  The two library objects the handler talks to, by what their methods answer:
  \<open>vectorStore.similaritySearch(query, k)\<close> and \<open>llm.invoke(messages)\<close>.
\<close>

record ('l, 'v) collaborators =
  vs_similaritySearch :: "'v \<Rightarrow> js_string \<Rightarrow> js_value \<Rightarrow> js_thrown + document list"
  llm_invoke :: "'l \<Rightarrow> chat_message list \<Rightarrow> js_thrown + invoke_result"

text \<open>The calls that leave the handler, in the order they are made.\<close>

datatype call = RetrievalCall js_string js_value | GenerationCall "chat_message list"

text \<open>A parameter with a default value takes it when the argument is \<open>undefined\<close>.\<close>

definition default_param :: "js_value \<Rightarrow> js_value \<Rightarrow> js_value" where
  "default_param v d = (if v = JUndefined then d else v)"

text \<open>
  \<open>similaritySearch\<close> of \<open>src/rag/vectorStore.js\<close>: the store's own search, any failure
  rethrown. A \<open>null\<close> store makes the method access throw a \<open>TypeError\<close>.
\<close>

definition similaritySearch ::
  "('l, 'v) collaborators \<Rightarrow> 'v option \<Rightarrow> js_string \<Rightarrow> js_value \<Rightarrow> js_thrown + document list"
where
  "similaritySearch c vs query k =
     (case vs of
        None \<Rightarrow> Inl (Error (ascii ''Cannot read properties of null (reading 'similaritySearch')''))
      | Some v \<Rightarrow> vs_similaritySearch c v query (default_param k (JNumber 3)))"

definition document_label :: "nat \<Rightarrow> document \<Rightarrow> js_string" where
  "document_label index doc =
     ascii ''[Document '' @ nat_to_string (index + 1) @ ascii '']'' @ [0x0A] @ pageContent doc"

definition build_context :: "document list \<Rightarrow> js_string" where
  "build_context relevantDocs =
     js_join [0x0A, 0x0A] (map (\<lambda>(index, doc). document_label index doc) (enumerate 0 relevantDocs))"

definition preamble :: js_string where
  "preamble =
     ascii ''You are a helpful assistant. Use the following context to answer the user's question. If the context doesn't contain relevant information, use your knowledge to provide a helpful response.''"

definition systemPrompt :: "js_string \<Rightarrow> js_string" where
  "systemPrompt context =
     preamble @ [0x0A, 0x0A] @ ascii ''Context:'' @ [0x0A] @ context @ [0x0A, 0x0A]
     @ ascii ''Answer the user's question based on the context provided above.''"

definition build_messages :: "document list \<Rightarrow> js_string \<Rightarrow> chat_message list" where
  "build_messages relevantDocs query =
     [SystemMessage (systemPrompt (build_context relevantDocs)), HumanMessage query]"

definition response_text :: "invoke_result \<Rightarrow> js_value" where
  "response_text result = js_or (js_or (result_content result) (result_text result)) (JString [])"

text \<open>
  \<open>generateResponse\<close>: retrieval, prompt assembly, one generation call. The result comes
  with the calls made; a failure of either call is rethrown.
\<close>

definition generateResponse ::
  "('l, 'v) collaborators \<Rightarrow> ('l, 'v) ChatHandler \<Rightarrow> js_string \<Rightarrow> js_value
     \<Rightarrow> (js_thrown + js_value) \<times> call list"
where
  "generateResponse c h query k0 =
     (let k = default_param k0 (JNumber 3) in
      case similaritySearch c (ch_vectorStore h) query k of
        Inl e \<Rightarrow> (Inl e, [RetrievalCall query k])
      | Inr relevantDocs \<Rightarrow>
          (let messages = build_messages relevantDocs query in
           case (case ch_llm h of
                   None \<Rightarrow> Inl (Error (ascii ''Cannot read properties of null (reading 'invoke')''))
                 | Some l \<Rightarrow> llm_invoke c l messages) of
             Inl e \<Rightarrow> (Inl e, [RetrievalCall query k, GenerationCall messages])
           | Inr result \<Rightarrow>
               (Inr (response_text result), [RetrievalCall query k, GenerationCall messages])))"

text \<open>
  The class declares a constructor and \<open>generateResponse\<close> and nothing else, so the
  property \<open>streamResponse\<close> of a handler is \<open>undefined\<close>. A streaming method, where an
  object has one, takes the query and \<open>k\<close> and either throws when called or returns an
  asynchronous iterable: the fragments it yields and how it ends.
\<close>

datatype stream_end = Returned | Thrown js_thrown

type_synonym stream_method = "js_string \<Rightarrow> js_value \<Rightarrow> js_thrown + js_string list \<times> stream_end"

definition ChatHandler_streamResponse :: "('l, 'v) ChatHandler \<Rightarrow> stream_method option" where
  "ChatHandler_streamResponse h = None"

section \<open>The stream adapter (\<open>_streamResponseChunks\<close> of \<open>src/llm/llamaAdapter.js\<close>)\<close>

text \<open>
  The generator's variables, with what it has yielded so far and how it ended once it
  has. \<open>completePrompt\<close> rejects with an \<open>Error\<close> object; \<open>streamingError\<close> holds its
  message (\<open>None\<close> is \<open>null\<close>).
\<close>

record stream_state =
  chunkQueue :: "js_string list"
  isComplete :: bool
  streamingError :: "js_string option"
  yielded :: "js_string list"
  finished :: "stream_end option"

definition stream_start :: stream_state where
  "stream_start =
     \<lparr> chunkQueue = [], isComplete = False, streamingError = None, yielded = [], finished = None \<rparr>"

text \<open>
  What can happen, in any order: the producer calls \<open>onTextChunk\<close>, its promise
  resolves or rejects, or the generator runs one turn of its loop (it is then suspended
  at a \<open>yield\<close> or in the 10 ms sleep, or has left the loop).
\<close>

datatype stream_event =
    OnTextChunk js_string
  | PromptResolved
  | PromptRejected js_string
  | ConsumerTurn

definition consumer_turn :: "stream_state \<Rightarrow> stream_state" where
  "consumer_turn st =
     (if finished st \<noteq> None then st
      else if \<not> isComplete st \<or> length (chunkQueue st) > 0
      then (case chunkQueue st of
              chunk # rest \<Rightarrow> st\<lparr> chunkQueue := rest, yielded := yielded st @ [chunk] \<rparr>
            | [] \<Rightarrow> st)
      else st\<lparr> finished :=
                Some (case streamingError st of
                        None \<Rightarrow> Returned
                      | Some m \<Rightarrow> Thrown (Error (ascii ''Streaming error: '' @ m))) \<rparr>)"

fun stream_step :: "stream_event \<Rightarrow> stream_state \<Rightarrow> stream_state" where
  "stream_step (OnTextChunk chunk) st = st\<lparr> chunkQueue := chunkQueue st @ [chunk] \<rparr>"
| "stream_step PromptResolved st = st\<lparr> isComplete := True \<rparr>"
| "stream_step (PromptRejected m) st = st\<lparr> streamingError := Some m, isComplete := True \<rparr>"
| "stream_step ConsumerTurn st = consumer_turn st"

fun stream_run :: "stream_event list \<Rightarrow> stream_state \<Rightarrow> stream_state" where
  "stream_run [] st = st"
| "stream_run (ev # evs) st = stream_run evs (stream_step ev st)"

text \<open>The producer's part of a trace, and the fragments it pushed.\<close>

fun is_producer :: "stream_event \<Rightarrow> bool" where
  "is_producer ConsumerTurn = False"
| "is_producer ev = True"

fun pushed :: "stream_event list \<Rightarrow> js_string list" where
  "pushed [] = []"
| "pushed (OnTextChunk chunk # evs) = chunk # pushed evs"
| "pushed (ev # evs) = pushed evs"

text \<open>How the generator ends after the settlement \<open>t\<close> of the producer.\<close>

definition stream_end_of :: "stream_event \<Rightarrow> stream_end" where
  "stream_end_of t =
     (case t of
        PromptRejected m \<Rightarrow> Thrown (Error (ascii ''Streaming error: '' @ m))
      | _ \<Rightarrow> Returned)"

fun is_settlement :: "stream_event \<Rightarrow> bool" where
  "is_settlement PromptResolved = True"
| "is_settlement (PromptRejected m) = True"
| "is_settlement ev = False"

text \<open>Before the producer settles, the generator cannot have finished.\<close>

definition unsettled :: "stream_state \<Rightarrow> bool" where
  "unsettled st = (\<not> isComplete st \<and> streamingError st = None \<and> finished st = None)"

text \<open>After it has settled with \<open>t\<close>, the generator drains the queue and ends as \<open>t\<close> says.\<close>

definition draining :: "stream_event \<Rightarrow> stream_state \<Rightarrow> bool" where
  "draining t st =
     (isComplete st
      \<and> streamingError st = (case t of PromptRejected m \<Rightarrow> Some m | _ \<Rightarrow> None)
      \<and> (finished st = None \<or> finished st = Some (stream_end_of t) \<and> chunkQueue st = []))"

text \<open>
  The stream the generator has produced on a trace once it has ended: what it yielded
  and how it ended (\<open>None\<close> while it is still running).
\<close>

definition adapter_stream :: "stream_event list \<Rightarrow> (js_string list \<times> stream_end) option" where
  "adapter_stream tr =
     (let st = stream_run tr stream_start in
      case finished st of
        None \<Rightarrow> None
      | Some e \<Rightarrow> Some (yielded st, e))"

section \<open>The streaming endpoint (\<open>src/chat/chat.controller.ts\<close>)\<close>

record ChatRequestDto =
  body_query :: js_value
  body_topK :: js_value

text \<open>The payloads given to \<open>JSON.stringify\<close>: the constructor is the \<open>type\<close> field.\<close>

datatype sse_event = ChunkEvent js_string | DoneEvent js_string | ErrorEvent js_string

definition error_message :: "js_thrown \<Rightarrow> js_string" where
  "error_message error =
     (case error of Error m \<Rightarrow> m | NonError v \<Rightarrow> ascii ''Unknown error occurred'')"

text \<open>The query the guard of \<open>streamChat\<close> lets through, if it does.\<close>

definition valid_query :: "js_value \<Rightarrow> js_string option" where
  "valid_query query =
     (if \<not> js_truthy query \<or> js_typeof query \<noteq> ''string'' then None
      else (case query of
              JString s \<Rightarrow> if trim s = [] then None else Some s
            | _ \<Rightarrow> None))"

definition effective_topK :: "js_value \<Rightarrow> ('l, 'v) RagService \<Rightarrow> js_value" where
  "effective_topK k s = js_or k (getTopK s)"

text \<open>
  The \<open>try\<close> block of the subscriber once \<open>getChatHandler\<close> has settled: its failure, a
  missing or throwing streaming method and a failure of the stream all end in the
  \<open>catch\<close> block, which emits one error event.
\<close>

definition stream_events ::
  "(('l, 'v) ChatHandler \<Rightarrow> stream_method option) \<Rightarrow> js_string \<Rightarrow> js_value
     \<Rightarrow> js_thrown + ('l, 'v) ChatHandler \<Rightarrow> sse_event list"
where
  "stream_events lookup query k got =
     (case got of
        Inl e \<Rightarrow> [ErrorEvent (error_message e)]
      | Inr h \<Rightarrow>
          (case lookup h of
             None \<Rightarrow>
               [ErrorEvent (error_message (Error (ascii ''chatHandler.streamResponse is not a function'')))]
           | Some streamResponse \<Rightarrow>
               (case streamResponse query k of
                  Inl e \<Rightarrow> [ErrorEvent (error_message e)]
                | Inr (chunks, Returned) \<Rightarrow>
                    map ChunkEvent chunks @ [DoneEvent (ascii ''Stream completed'')]
                | Inr (chunks, Thrown e) \<Rightarrow>
                    map ChunkEvent chunks @ [ErrorEvent (error_message e)])))"

text \<open>
  \<open>streamChat\<close> up to its first suspension: an invalid query is answered at once; a
  valid one asks the service for the handler and waits.
\<close>

datatype request_state = Answered "sse_event list" | Waiting handle js_string

definition streamChat ::
  "ChatRequestDto \<Rightarrow> ('l, 'v, 'd) system \<Rightarrow> request_state \<times> ('l, 'v, 'd) system"
where
  "streamChat body sys =
     (case valid_query (body_query body) of
        None \<Rightarrow>
          (Answered [ErrorEvent (ascii ''Query is required and must be a non-empty string'')], sys)
      | Some query \<Rightarrow>
          (let (h, sys') = getChatHandler_start sys in (Waiting h query, sys')))"

text \<open>
  The rest of the request, once the awaited promise has settled (\<open>None\<close> while it is
  pending).
\<close>

definition streamChat_resume ::
  "(('l, 'v) ChatHandler \<Rightarrow> stream_method option) \<Rightarrow> ChatRequestDto \<Rightarrow> request_state
     \<Rightarrow> ('l, 'v, 'd) system \<Rightarrow> sse_event list option"
where
  "streamChat_resume lookup body rs sys =
     (case rs of
        Answered evs \<Rightarrow> Some evs
      | Waiting h query \<Rightarrow>
          (case getChatHandler_finish sys h of
             None \<Rightarrow> None
           | Some got \<Rightarrow>
               Some (stream_events lookup query (effective_topK (body_topK body) (service sys)) got)))"

section \<open>A stub world for the end-to-end scenario\<close>

text \<open>
  One document in the knowledge base, no persisted index, every external operation
  succeeding; the store is the list of its documents and returns the first \<open>k\<close> of them
  (none for \<open>k = 0\<close>); the generator answers \<open>Paris\<close>.
\<close>

datatype stub_llm = StubLLM

definition paris_document :: document where
  "paris_document = \<lparr> pageContent = ascii ''Paris is the capital of France.'' \<rparr>"

definition stub_externals :: "(stub_llm, document list, document) externals" where
  "stub_externals =
     \<lparr> import_module = (\<lambda>m. None),
       loadModel = None,
       new_ChatLlamaCpp = Inr StubLLM,
       new_XenovaEmbeddings = None,
       existsSync = (\<lambda>p. False),
       mkdirSync = (\<lambda>p. None),
       FaissStore_load = Inl (Error (ascii ''No such file or directory'')),
       loadAndProcessDocuments = Inr [paris_document],
       FaissStore_fromDocuments = (\<lambda>ds. Inr ds),
       vectorStore_save = None,
       new_FaissStore = [] \<rparr>"

definition stub_collaborators :: "(stub_llm, document list) collaborators" where
  "stub_collaborators =
     \<lparr> vs_similaritySearch =
         (\<lambda>v query k. case k of JNumber r \<Rightarrow> Inr (take (nat \<lfloor>r\<rfloor>) v) | _ \<Rightarrow> Inr v),
       llm_invoke = (\<lambda>l messages. Inr \<lparr> result_content = JString (ascii ''Paris''), result_text = JUndefined \<rparr>) \<rparr>"

text \<open>The handler of the initialized stub service.\<close>

definition ready_handler :: "(stub_llm, document list) ChatHandler" where
  "ready_handler = \<lparr> ch_vectorStore = Some [paris_document], ch_llm = Some StubLLM \<rparr>"

text \<open>
  A handler's streaming method that hands on the stream the adapter produces on the
  producer trace \<open>tr\<close>, for a handler that has one.
\<close>

definition relay :: "stream_event list \<Rightarrow> ('l, 'v) ChatHandler \<Rightarrow> stream_method option" where
  "relay tr h =
     (case adapter_stream tr of
        None \<Rightarrow> None
      | Some s \<Rightarrow> Some (\<lambda>query k. Inr s))"

text \<open>A producer that pushes one fragment and then rejects, with the generator's turns.\<close>

definition failing_trace :: "stream_event list" where
  "failing_trace =
     [OnTextChunk (ascii ''Par''), ConsumerTurn, PromptRejected (ascii ''out of memory''),
      ConsumerTurn, ConsumerTurn]"

text \<open>The stub collaborators with a store whose search throws.\<close>

definition failing_search :: "(stub_llm, document list) collaborators" where
  "failing_search =
     stub_collaborators\<lparr> vs_similaritySearch := (\<lambda>v query k. Inl (Error (ascii ''search failed''))) \<rparr>"

definition no_env :: "string \<Rightarrow> js_string option" where
  "no_env name = None"

text \<open>An environment that sets \<open>TOP_K\<close> to \<open>0\<close>.\<close>

definition zero_topK_env :: "string \<Rightarrow> js_string option" where
  "zero_topK_env name = (if name = ''TOP_K'' then Some (ascii ''0'') else None)"

text \<open>The same world with the model file missing.\<close>

definition model_missing :: "(stub_llm, document list, document) externals" where
  "model_missing = stub_externals\<lparr> loadModel := Some (Error (ascii ''Model file not found'')) \<rparr>"

text \<open>The same world with an index file on disk that cannot be loaded.\<close>

definition corrupt_index :: "(stub_llm, document list, document) externals" where
  "corrupt_index =
     stub_externals\<lparr> existsSync := (\<lambda>p. True),
                     FaissStore_load := Inl (Error (ascii ''Could not read index'')) \<rparr>"

definition paris_request :: ChatRequestDto where
  "paris_request =
     \<lparr> body_query = JString (ascii ''What is the capital of France?''), body_topK = JNumber 1 \<rparr>"

section \<open>Invariants of the service\<close>

text \<open>
  What holds of the service and its promise table in every state: a pending promise is
  the one the service's handle names, the flag is not yet set, and the fields its
  sequence has passed are assigned; the flag implies the three objects and a fulfilled
  promise; a named handle of an uninitialized service is pending.
\<close>

definition after_model :: "'d init_pc \<Rightarrow> bool" where
  "after_model pc = (case pc of AwaitImport i \<Rightarrow> False | AwaitLoadModel \<Rightarrow> False | _ \<Rightarrow> True)"

definition pc_ok :: "'d init_pc \<Rightarrow> ('l, 'v) RagService \<Rightarrow> bool" where
  "pc_ok pc s = ((after_model pc \<longrightarrow> llm s \<noteq> None) \<and> (pc = AwaitSaveVectorStore \<longrightarrow> vectorStore s \<noteq> None))"

definition is_pending :: "'d promise \<Rightarrow> bool" where
  "is_pending pr = (case pr of Pending pc \<Rightarrow> True | _ \<Rightarrow> False)"

definition inv_pending :: "('l, 'v, 'd) system \<Rightarrow> bool" where
  "inv_pending sys =
     (\<forall>p pc. p < length (promises sys) \<and> promises sys ! p = Pending pc \<longrightarrow>
          initializationPromise (service sys) = Some p \<and> \<not> isInitialized (service sys)
          \<and> pc_ok pc (service sys))"

definition inv_ready :: "('l, 'v, 'd) system \<Rightarrow> bool" where
  "inv_ready sys =
     (if isInitialized (service sys)
      then llm (service sys) \<noteq> None \<and> vectorStore (service sys) \<noteq> None
           \<and> chatHandler (service sys) \<noteq> None \<and> Fulfilled \<in> set (promises sys)
      else Fulfilled \<notin> set (promises sys))"

definition inv_handle :: "('l, 'v, 'd) system \<Rightarrow> bool" where
  "inv_handle sys =
     (\<forall>p. \<not> isInitialized (service sys) \<and> initializationPromise (service sys) = Some p \<longrightarrow>
            p < length (promises sys) \<and> is_pending (promises sys ! p))"

definition inv :: "('l, 'v, 'd) system \<Rightarrow> bool" where
  "inv sys = (inv_pending sys \<and> inv_ready sys \<and> inv_handle sys)"

section \<open>The invariants hold in every reachable state\<close>

lemma try_frame:
  "doInitialize_try ext pc s = (out, s') \<Longrightarrow>
     initializationPromise s' = initializationPromise s \<and> config s' = config s"
  by (cases pc) (auto simp: finish_init_def Let_def split: option.splits sum.splits if_splits)

lemma try_ok:
  "pc_ok pc s \<Longrightarrow> \<not> isInitialized s \<Longrightarrow> doInitialize_try ext pc s = (out, s') \<Longrightarrow>
     (case out of
        Suspend pc' \<Rightarrow> pc_ok pc' s' \<and> \<not> isInitialized s'
      | Completed \<Rightarrow> isInitialized s' \<and> llm s' \<noteq> None \<and> vectorStore s' \<noteq> None \<and> chatHandler s' \<noteq> None
      | Threw e \<Rightarrow> \<not> isInitialized s')"
  by (cases pc)
     (auto simp: finish_init_def Let_def pc_ok_def after_model_def
           split: option.splits sum.splits if_splits)

lemma inv_boot: "inv (boot env)"
  by (simp add: inv_def inv_pending_def inv_ready_def inv_handle_def boot_def RagService_constructor_def)

lemma initialize_same:
  "isInitialized (service sys) \<or> initializationPromise (service sys) \<noteq> None \<Longrightarrow>
     snd (initialize sys) = sys"
  by (auto simp: initialize_def split: option.splits)

lemma initialize_new:
  "\<not> isInitialized (service sys) \<Longrightarrow> initializationPromise (service sys) = None \<Longrightarrow>
     initialize sys =
       (Awaiting (length (promises sys)),
        sys\<lparr> promises := promises sys @ [Pending (AwaitImport 0)],
             service := (service sys)\<lparr> initializationPromise := Some (length (promises sys)) \<rparr> \<rparr>)"
  by (simp add: initialize_def Let_def)

lemma no_pending_when_idle:
  assumes "inv_pending sys" "initializationPromise (service sys) = None"
    and "p < length (promises sys)"
  shows "\<not> is_pending (promises sys ! p)"
  using assms unfolding inv_pending_def is_pending_def
  by (cases "promises sys ! p") auto

lemma inv_initialize: 
  assumes "inv sys" shows "inv (snd (initialize sys))"
proof (cases "isInitialized (service sys) \<or> initializationPromise (service sys) \<noteq> None")
  case True
  then show ?thesis using assms by (simp add: initialize_same)
next
  case False
  then have ni: "\<not> isInitialized (service sys)" and np: "initializationPromise (service sys) = None"
    by auto
  let ?n = "length (promises sys)"
  let ?sys' = "sys\<lparr> promises := promises sys @ [Pending (AwaitImport 0)],
             service := (service sys)\<lparr> initializationPromise := Some ?n \<rparr> \<rparr>"
  have eq: "snd (initialize sys) = ?sys'"
    using initialize_new [OF ni np] by simp
  have ip: "inv_pending sys" and ir: "inv_ready sys" using assms by (simp_all add: inv_def)
  have a: "inv_pending ?sys'"
    unfolding inv_pending_def
  proof (intro allI impI)
    fix p pc
    assume h: "p < length (promises ?sys') \<and> promises ?sys' ! p = Pending pc"
    have "\<not> p < ?n"
    proof
      assume "p < ?n"
      with h have "promises sys ! p = Pending pc" by (simp add: nth_append)
      with no_pending_when_idle [OF ip np \<open>p < ?n\<close>] show False by (simp add: is_pending_def)
    qed
    with h have pn: "p = ?n" by simp
    with h have "pc = AwaitImport 0" by simp
    with pn ni show "initializationPromise (service ?sys') = Some p \<and> \<not> isInitialized (service ?sys')
          \<and> pc_ok pc (service ?sys')"
      by (simp add: pc_ok_def after_model_def)
  qed
  have b: "inv_ready ?sys'"
    using ir ni by (simp add: inv_ready_def)
  have c: "inv_handle ?sys'"
    by (simp add: inv_handle_def is_pending_def)
  show ?thesis unfolding eq inv_def using a b c by simp
qed

lemma pending_unique:
  assumes "inv_pending sys" "p < length (promises sys)" "promises sys ! p = Pending pc"
    and "q < length (promises sys)" "promises sys ! q = Pending pc'"
  shows "q = p"
proof -
  have "initializationPromise (service sys) = Some p" using assms(1,2,3) unfolding inv_pending_def by blast
  moreover have "initializationPromise (service sys) = Some q" using assms(1,4,5) unfolding inv_pending_def by blast
  ultimately show ?thesis by simp
qed

lemma inv_resume:
  assumes "inv sys" shows "inv (doInitialize_resume ext p sys)"
proof (cases "p < length (promises sys) \<and> is_pending (promises sys ! p)")
  case False
  then have "doInitialize_resume ext p sys = sys"
    by (auto simp: doInitialize_resume_def is_pending_def split: promise.splits)
  with assms show ?thesis by simp
next
  case True
  then obtain pc where pl: "p < length (promises sys)" and pp: "promises sys ! p = Pending pc"
    by (auto simp: is_pending_def split: promise.splits)
  let ?ps = "promises sys"
  let ?s = "service sys"
  have ip: "inv_pending sys" and ir: "inv_ready sys" and ih: "inv_handle sys"
    using assms by (simp_all add: inv_def)
  from ip pl pp have hp: "initializationPromise ?s = Some p" and ni: "\<not> isInitialized ?s"
    and ok: "pc_ok pc ?s"
    unfolding inv_pending_def by blast+
  from ir ni have nf: "Fulfilled \<notin> set ?ps" by (simp add: inv_ready_def)
  obtain out s' where tr: "doInitialize_try ext pc ?s = (out, s')" by (cases "doInitialize_try ext pc ?s")
  have fr: "initializationPromise s' = Some p" using try_frame [OF tr] hp by simp
  note post = try_ok [OF ok ni tr]
  have others: "\<And>q pc' x. q < length ?ps \<Longrightarrow> (?ps[p := x]) ! q = Pending pc' \<Longrightarrow> q \<noteq> p \<Longrightarrow> False"
  proof -
    fix q pc' x
    assume "q < length ?ps" "(?ps[p := x]) ! q = Pending pc'" "q \<noteq> p"
    then have "?ps ! q = Pending pc'" by simp
    from pending_unique [OF ip pl pp \<open>q < length ?ps\<close> this] \<open>q \<noteq> p\<close> show False by simp
  qed
  have nf': "\<And>x. x \<noteq> Fulfilled \<Longrightarrow> Fulfilled \<notin> set (?ps[p := x])"
    using nf set_update_subset_insert [of ?ps p] by fastforce
  show ?thesis
  proof (cases out)
    case (Suspend pc')
    then have eq: "doInitialize_resume ext p sys = sys\<lparr> service := s', promises := ?ps[p := Pending pc'] \<rparr>"
      using pl pp tr by (simp add: doInitialize_resume_def)
    from post Suspend have ok': "pc_ok pc' s'" and ni': "\<not> isInitialized s'" by simp_all
    have a: "inv_pending (sys\<lparr> service := s', promises := ?ps[p := Pending pc'] \<rparr>)"
      unfolding inv_pending_def
    proof (intro allI impI)
      fix q pc''
      assume h: "q < length (promises (sys\<lparr> service := s', promises := ?ps[p := Pending pc'] \<rparr>)) \<and>
        promises (sys\<lparr> service := s', promises := ?ps[p := Pending pc'] \<rparr>) ! q = Pending pc''"
      then have ql: "q < length ?ps" and qq: "(?ps[p := Pending pc']) ! q = Pending pc''" by simp_all
      have "q = p" using others [OF ql qq] by blast
      with qq pl have "pc'' = pc'" by simp
      with \<open>q = p\<close> fr ni' ok'
      show "initializationPromise (service (sys\<lparr> service := s', promises := ?ps[p := Pending pc'] \<rparr>)) = Some q
        \<and> \<not> isInitialized (service (sys\<lparr> service := s', promises := ?ps[p := Pending pc'] \<rparr>))
        \<and> pc_ok pc'' (service (sys\<lparr> service := s', promises := ?ps[p := Pending pc'] \<rparr>))"
        by simp
    qed
    have b: "inv_ready (sys\<lparr> service := s', promises := ?ps[p := Pending pc'] \<rparr>)"
      using ni' nf' [of "Pending pc'"] by (simp add: inv_ready_def)
    have c: "inv_handle (sys\<lparr> service := s', promises := ?ps[p := Pending pc'] \<rparr>)"
      using fr pl by (simp add: inv_handle_def is_pending_def)
    show ?thesis unfolding eq inv_def using a b c by simp
  next
    case Completed
    then have eq: "doInitialize_resume ext p sys = sys\<lparr> service := s', promises := ?ps[p := Fulfilled] \<rparr>"
      using pl pp tr by (simp add: doInitialize_resume_def)
    from post Completed have i': "isInitialized s'" "llm s' \<noteq> None" "vectorStore s' \<noteq> None" "chatHandler s' \<noteq> None"
      by simp_all
    have a: "inv_pending (sys\<lparr> service := s', promises := ?ps[p := Fulfilled] \<rparr>)"
      unfolding inv_pending_def
    proof (intro allI impI)
      fix q pc''
      assume h: "q < length (promises (sys\<lparr> service := s', promises := ?ps[p := Fulfilled] \<rparr>)) \<and>
        promises (sys\<lparr> service := s', promises := ?ps[p := Fulfilled] \<rparr>) ! q = Pending pc''"
      then have ql: "q < length ?ps" and qq: "(?ps[p := Fulfilled]) ! q = Pending pc''" by simp_all
      have "q = p" using others [OF ql qq] by blast
      with qq pl have False by simp
      then show "initializationPromise (service (sys\<lparr> service := s', promises := ?ps[p := Fulfilled] \<rparr>)) = Some q
        \<and> \<not> isInitialized (service (sys\<lparr> service := s', promises := ?ps[p := Fulfilled] \<rparr>))
        \<and> pc_ok pc'' (service (sys\<lparr> service := s', promises := ?ps[p := Fulfilled] \<rparr>))" ..
    qed
    have b: "inv_ready (sys\<lparr> service := s', promises := ?ps[p := Fulfilled] \<rparr>)"
      using i' pl by (simp add: inv_ready_def set_update_memI)
    have c: "inv_handle (sys\<lparr> service := s', promises := ?ps[p := Fulfilled] \<rparr>)"
      using i' by (simp add: inv_handle_def)
    show ?thesis unfolding eq inv_def using a b c by simp
  next
    case (Threw e)
    let ?sys' = "sys\<lparr> service := s'\<lparr> initializationPromise := None \<rparr>, promises := ?ps[p := Rejected e] \<rparr>"
    from Threw have eq: "doInitialize_resume ext p sys = ?sys'"
      using pl pp tr by (simp add: doInitialize_resume_def)
    from post Threw have ni': "\<not> isInitialized s'" by simp
    have a: "inv_pending ?sys'"
      unfolding inv_pending_def
    proof (intro allI impI)
      fix q pc''
      assume h: "q < length (promises ?sys') \<and> promises ?sys' ! q = Pending pc''"
      then have ql: "q < length ?ps" and qq: "(?ps[p := Rejected e]) ! q = Pending pc''" by simp_all
      have "q = p" using others [OF ql qq] by blast
      with qq pl have False by simp
      then show "initializationPromise (service ?sys') = Some q
        \<and> \<not> isInitialized (service ?sys') \<and> pc_ok pc'' (service ?sys')" ..
    qed
    have b: "inv_ready ?sys'"
      using ni' nf' [of "Rejected e"] by (simp add: inv_ready_def)
    have c: "inv_handle ?sys'"
      by (simp add: inv_handle_def)
    show ?thesis unfolding eq inv_def using a b c by simp
  qed
qed

lemma inv_step: "inv sys \<Longrightarrow> inv (step ev sys)"
  by (cases ev) (simp_all add: inv_initialize inv_resume getChatHandler_start_def warmup_start_def)

lemma inv_run: "inv sys \<Longrightarrow> inv (run evs sys)"
  by (induction evs arbitrary: sys) (simp_all add: inv_step)

lemma inv_reachable: "inv (run evs (boot env))"
  by (simp add: inv_run inv_boot)

section \<open>Facts about promises and calls\<close>

lemma in_flight_iff:
  "p \<in> set (in_flight sys) \<longleftrightarrow> p < length (promises sys) \<and> is_pending (promises sys ! p)"
  by (auto simp: in_flight_def is_pending_def split: promise.splits)

lemma at_most_one:
  assumes "distinct xs" and "\<And>x y. x \<in> set xs \<Longrightarrow> y \<in> set xs \<Longrightarrow> x = y"
  shows "length xs \<le> 1"
proof (cases xs)
  case Nil
  then show ?thesis by simp
next
  case (Cons a ys)
  show ?thesis
  proof (cases ys)
    case Nil
    with Cons show ?thesis by simp
  next
    case (Cons b zs)
    with \<open>xs = a # ys\<close> assms(2) [of a b] assms(1) show ?thesis by simp
  qed
qed

lemma in_flight_le:
  assumes "inv_pending sys" shows "length (in_flight sys) \<le> 1"
proof (rule at_most_one)
  show "distinct (in_flight sys)" by (simp add: in_flight_def)
next
  fix x y
  assume "x \<in> set (in_flight sys)" "y \<in> set (in_flight sys)"
  then obtain pc pc' where "x < length (promises sys)" "promises sys ! x = Pending pc"
    "y < length (promises sys)" "promises sys ! y = Pending pc'"
    by (auto simp: in_flight_iff is_pending_def split: promise.splits)
  then show "x = y" using pending_unique [OF assms] by blast
qed

lemma pending_attach:
  assumes "inv_pending sys" and "p \<in> set (in_flight sys)"
  shows "initialize sys = (Awaiting p, sys)"
proof -
  from assms(2) obtain pc where "p < length (promises sys)" "promises sys ! p = Pending pc"
    by (auto simp: in_flight_iff is_pending_def split: promise.splits)
  with assms(1) have "initializationPromise (service sys) = Some p" "\<not> isInitialized (service sys)"
    unfolding inv_pending_def by blast+
  then show ?thesis by (simp add: initialize_def)
qed

lemma ready_no_flight:
  assumes "inv_pending sys" and "isInitialized (service sys)"
  shows "in_flight sys = []"
proof -
  have "\<And>p. p \<notin> set (in_flight sys)"
  proof
    fix p assume "p \<in> set (in_flight sys)"
    then obtain pc where "p < length (promises sys)" "promises sys ! p = Pending pc"
      by (auto simp: in_flight_iff is_pending_def split: promise.splits)
    with assms show False unfolding inv_pending_def by blast
  qed
  then show ?thesis by (cases "in_flight sys") auto
qed

lemma idle_handle:
  assumes "inv_handle sys" and "in_flight sys = []" and "\<not> isInitialized (service sys)"
  shows "initializationPromise (service sys) = None"
proof (cases "initializationPromise (service sys)")
  case None
  then show ?thesis .
next
  case (Some p)
  with assms(1,3) have "p < length (promises sys) \<and> is_pending (promises sys ! p)"
    unfolding inv_handle_def by blast
  then have "p \<in> set (in_flight sys)" by (simp add: in_flight_iff)
  with assms(2) show ?thesis by simp
qed

lemma in_flight_append_pending:
  "in_flight (sys\<lparr> promises := promises sys @ [Pending pc], service := s \<rparr>)
     = in_flight sys @ [length (promises sys)]"
  by (auto simp: in_flight_def nth_append intro!: filter_cong)

lemma promise_kept_initialize:
  "p < length (promises sys) \<Longrightarrow>
     p < length (promises (snd (initialize sys))) \<and> promises (snd (initialize sys)) ! p = promises sys ! p"
  by (simp add: initialize_def Let_def nth_append split: option.splits)

lemma promise_kept_resume:
  "p < length (promises sys) \<Longrightarrow> \<not> is_pending (promises sys ! p) \<Longrightarrow>
     p < length (promises (doInitialize_resume ext q sys))
     \<and> promises (doInitialize_resume ext q sys) ! p = promises sys ! p"
  by (cases "q = p")
     (auto simp: doInitialize_resume_def is_pending_def split: promise.splits outcome.splits prod.splits)

lemma promise_kept_step:
  "p < length (promises sys) \<Longrightarrow> \<not> is_pending (promises sys ! p) \<Longrightarrow>
     p < length (promises (step ev sys)) \<and> promises (step ev sys) ! p = promises sys ! p"
  by (cases ev)
     (simp_all add: promise_kept_initialize promise_kept_resume getChatHandler_start_def warmup_start_def)

lemma promise_kept_run:
  "p < length (promises sys) \<Longrightarrow> \<not> is_pending (promises sys ! p) \<Longrightarrow>
     p < length (promises (run evs sys)) \<and> promises (run evs sys) ! p = promises sys ! p"
proof (induction evs arbitrary: sys)
  case Nil
  then show ?case by simp
next
  case (Cons ev evs)
  from promise_kept_step [OF Cons.prems, of ev]
  have a: "p < length (promises (step ev sys))" and b: "promises (step ev sys) ! p = promises sys ! p"
    by simp_all
  from Cons.prems(2) b have "\<not> is_pending (promises (step ev sys) ! p)" by simp
  from Cons.IH [OF a this] b show ?case by simp
qed

lemma settled_kept:
  assumes "settled sys h = Some r" shows "settled (run evs sys) h = Some r"
proof (cases h)
  case Immediate
  with assms show ?thesis by (simp add: settled_def)
next
  case (Awaiting p)
  with assms have pl: "p < length (promises sys)" and np: "\<not> is_pending (promises sys ! p)"
    by (auto simp: settled_def is_pending_def split: if_splits promise.splits)
  from promise_kept_run [OF pl np, of evs]
  have "p < length (promises (run evs sys))" and "promises (run evs sys) ! p = promises sys ! p"
    by simp_all
  with assms Awaiting pl show ?thesis
    by (simp add: settled_def)
qed

section \<open>One initialization attempt from start to end\<close>

lemma run_append: "run (xs @ ys) sys = run ys (run xs sys)"
  by (induction xs arbitrary: sys) simp_all

lemma attempt_boot:
  "attempt ext (boot env) = run (replicate 11 (Resume 0 ext)) (snd (initialize (boot env)))"
  by (simp add: attempt_def initialize_def boot_def RagService_constructor_def)

lemma attempt_prefix:
  fixes ext :: "('l, 'v, 'd) externals"
  assumes "\<And>m. import_module ext m = None" "loadModel ext = None" "new_ChatLlamaCpp ext = Inr l"
    "new_XenovaEmbeddings ext = None" "existsSync ext IndexDir \<or> mkdirSync ext IndexDir = None"
  shows "run (replicate 7 (Resume 0 ext)) (snd (initialize (boot env))) =
           \<lparr> service = (RagService_constructor env)
                \<lparr> llm := Some l, initializationPromise := Some 0, cleanupModel := True \<rparr>,
             promises = [Pending (if existsSync ext IndexFile then AwaitImportFaissForLoad
                                  else AwaitLoadDocuments)] \<rparr>"
  using assms
  by (auto simp: boot_def RagService_constructor_def initialize_def doInitialize_resume_def
      init_imports_def Let_def eval_nat_numeral)

lemma attempt_split:
  fixes ext :: "('l, 'v, 'd) externals"
  assumes "\<And>m. import_module ext m = None" "loadModel ext = None" "new_ChatLlamaCpp ext = Inr l"
    "new_XenovaEmbeddings ext = None" "existsSync ext IndexDir \<or> mkdirSync ext IndexDir = None"
  shows "attempt ext (boot env) =
           run (replicate 4 (Resume 0 ext))
             \<lparr> service = (RagService_constructor env)
                  \<lparr> llm := Some l, initializationPromise := Some 0, cleanupModel := True \<rparr>,
               promises = [Pending (if existsSync ext IndexFile then AwaitImportFaissForLoad
                                    else AwaitLoadDocuments)] \<rparr>"
proof -
  have "replicate 11 (Resume 0 ext) = replicate 7 (Resume 0 ext) @ replicate 4 (Resume 0 ext)"
    by (simp add: replicate_add [symmetric])
  then show ?thesis
    by (simp only: attempt_boot run_append attempt_prefix [OF assms])
qed

lemma corrupt_ok:
  "import_module corrupt_index m = None" "loadModel corrupt_index = None"
  "new_ChatLlamaCpp corrupt_index = Inr StubLLM" "new_XenovaEmbeddings corrupt_index = None"
  "existsSync corrupt_index IndexDir \<or> mkdirSync corrupt_index IndexDir = None"
  by (simp_all add: corrupt_index_def stub_externals_def)

lemma stub_ok:
  "import_module stub_externals m = None" "loadModel stub_externals = None"
  "new_ChatLlamaCpp stub_externals = Inr StubLLM" "new_XenovaEmbeddings stub_externals = None"
  "existsSync stub_externals IndexDir \<or> mkdirSync stub_externals IndexDir = None"
  by (simp_all add: stub_externals_def)

lemma stub_attempt:
  "promises (attempt stub_externals (boot no_env)) = [Fulfilled]"
  "isInitialized (service (attempt stub_externals (boot no_env)))"
  "llm (service (attempt stub_externals (boot no_env))) = Some StubLLM"
  "vectorStore (service (attempt stub_externals (boot no_env))) = Some [paris_document]"
  "chatHandler (service (attempt stub_externals (boot no_env))) = Some ready_handler"
  unfolding attempt_split [of stub_externals StubLLM no_env, OF stub_ok]
  by (simp_all add: stub_externals_def doInitialize_resume_def saveVectorStore_def finish_init_def
      ready_handler_def eval_nat_numeral)

lemma attempt_as_run:
  "attempt ext (boot env) = run (CallInitialize # replicate 11 (Resume 0 ext)) (boot env)"
  by (simp add: attempt_boot)

section \<open>Single-flight initialization\<close>

text \<open>
  Claim C1. In every state the service can reach, under any interleaving of calls and
  resumptions: at most one initialization sequence is in flight; while one is, every
  call of \<open>initialize\<close> (and of \<open>getChatHandler\<close> and the warm-up endpoint) gets the
  promise of that sequence and changes nothing, so no second sequence is started; a call
  on an idle, uninitialized service starts exactly one sequence, at its first step; a
  call on a ready service returns at once and changes nothing; and a promise that has
  settled keeps its outcome, so all callers holding it resolve or reject alike.
\<close>

theorem single_flight_initialization:
  fixes env :: "string \<Rightarrow> js_string option" and evs :: "('l, 'v, 'd) event list"
  shows
  "(let sys = run evs (boot env) in
      length (in_flight sys) \<le> 1
      \<and> (\<forall>p \<in> set (in_flight sys).
            initialize sys = (Awaiting p, sys)
            \<and> getChatHandler_start sys = (Awaiting p, sys)
            \<and> warmup_start sys = (Awaiting p, sys))
      \<and> (in_flight sys = [] \<and> \<not> isInitialized (service sys) \<longrightarrow>
            fst (initialize sys) = Awaiting (length (promises sys))
            \<and> promises (snd (initialize sys)) = promises sys @ [Pending (AwaitImport 0)]
            \<and> in_flight (snd (initialize sys)) = [length (promises sys)])
      \<and> (isReady (service sys) \<longrightarrow> initialize sys = (Immediate, sys) \<and> in_flight sys = [])
      \<and> (\<forall>h r evs'. settled sys h = Some r \<longrightarrow> settled (run evs' sys) h = Some r))"
proof -
  define sys where "sys = run evs (boot env)"
  have i: "inv sys" unfolding sys_def by (rule inv_reachable)
  then have ip: "inv_pending sys" and ir: "inv_ready sys" and ih: "inv_handle sys"
    by (simp_all add: inv_def)
  have a: "length (in_flight sys) \<le> 1" by (rule in_flight_le [OF ip])
  have b: "\<forall>p \<in> set (in_flight sys).
            initialize sys = (Awaiting p, sys)
            \<and> getChatHandler_start sys = (Awaiting p, sys)
            \<and> warmup_start sys = (Awaiting p, sys)"
  proof
    fix p assume p: "p \<in> set (in_flight sys)"
    have e: "initialize sys = (Awaiting p, sys)" by (rule pending_attach [OF ip p])
    have "\<not> isInitialized (service sys)"
      using ready_no_flight [OF ip] p by auto
    with e show "initialize sys = (Awaiting p, sys)
            \<and> getChatHandler_start sys = (Awaiting p, sys)
            \<and> warmup_start sys = (Awaiting p, sys)"
      by (simp add: getChatHandler_start_def warmup_start_def isReady_def)
  qed
  have c: "in_flight sys = [] \<and> \<not> isInitialized (service sys) \<longrightarrow>
            fst (initialize sys) = Awaiting (length (promises sys))
            \<and> promises (snd (initialize sys)) = promises sys @ [Pending (AwaitImport 0)]
            \<and> in_flight (snd (initialize sys)) = [length (promises sys)]"
  proof
    assume h: "in_flight sys = [] \<and> \<not> isInitialized (service sys)"
    then have n: "initializationPromise (service sys) = None" using idle_handle [OF ih] by simp
    from h have ni: "\<not> isInitialized (service sys)" by simp
    show "fst (initialize sys) = Awaiting (length (promises sys))
            \<and> promises (snd (initialize sys)) = promises sys @ [Pending (AwaitImport 0)]
            \<and> in_flight (snd (initialize sys)) = [length (promises sys)]"
      using h by (simp add: initialize_new [OF ni n] in_flight_append_pending)
  qed
  have d: "isReady (service sys) \<longrightarrow> initialize sys = (Immediate, sys) \<and> in_flight sys = []"
    using ready_no_flight [OF ip] by (simp add: isReady_def initialize_def)
  have e: "\<forall>h r evs'. settled sys h = Some r \<longrightarrow> settled (run evs' sys) h = Some r"
    using settled_kept by blast
  from a b c d e show ?thesis unfolding sys_def [symmetric] Let_def by blast
qed

lemmas stub_eval =
  boot_def RagService_constructor_def initialize_def doInitialize_resume_def
  getChatHandler_start_def warmup_start_def isReady_def stub_externals_def
  init_imports_def finish_init_def saveVectorStore_def initializeVectorStore_def Let_def

theorem single_flight_initialization_witness:
  "(let sys = run [CallInitialize, Resume 0 stub_externals, CallGetChatHandler, CallWarmup]
               (boot no_env) in
      in_flight sys = [0] \<and> length (promises sys) = 1
      \<and> initialize sys = (Awaiting 0, sys)
      \<and> getChatHandler_start sys = (Awaiting 0, sys)
      \<and> warmup_start sys = (Awaiting 0, sys))"
proof -
  define sys where
    "sys = run [CallInitialize, Resume 0 stub_externals, CallGetChatHandler, CallWarmup] (boot no_env)"
  have p: "promises sys = [Pending (AwaitImport 1)]"
    unfolding sys_def by (simp add: stub_eval)
  then have f: "in_flight sys = [0]" by (simp add: in_flight_def)
  from single_flight_initialization [of "[CallInitialize, Resume 0 stub_externals, CallGetChatHandler, CallWarmup]" no_env]
  have "\<forall>p \<in> set (in_flight sys).
            initialize sys = (Awaiting p, sys)
            \<and> getChatHandler_start sys = (Awaiting p, sys)
            \<and> warmup_start sys = (Awaiting p, sys)"
    unfolding sys_def Let_def by blast
  with f p show ?thesis unfolding sys_def [symmetric] Let_def by simp
qed

section \<open>Failure of an initialization attempt\<close>

lemma idle_no_flight:
  assumes "inv_pending sys" and "initializationPromise (service sys) = None"
  shows "in_flight sys = []"
proof -
  have "\<And>p. p \<notin> set (in_flight sys)"
    using no_pending_when_idle [OF assms] by (auto simp: in_flight_iff)
  then show ?thesis by (cases "in_flight sys") auto
qed

text \<open>
  Claim C4. Whenever a step of a pending initialization throws \<open>e\<close>, in any reachable
  state: the promise handle is cleared, the flag stays false, the service is not ready
  and the health endpoint says so, nothing is in flight, everyone awaiting that promise
  sees it rejected with \<open>e\<close>, and the next call of \<open>initialize\<close> starts a new sequence
  at the first step behind a new promise.
\<close>

theorem initialization_failure_resets:
  fixes env :: "string \<Rightarrow> js_string option" and evs :: "('l, 'v, 'd) event list"
  assumes "p < length (promises (run evs (boot env)))"
    and "promises (run evs (boot env)) ! p = Pending pc"
    and "fst (doInitialize_try ext pc (service (run evs (boot env)))) = Threw e"
  shows
  "(let sys' = doInitialize_resume ext p (run evs (boot env)); n = length (promises sys') in
      initializationPromise (service sys') = None
      \<and> \<not> isInitialized (service sys')
      \<and> \<not> isReady (service sys')
      \<and> \<not> rag_initialized (checkHealth (service sys'))
      \<and> \<not> rag_ready (checkHealth (service sys'))
      \<and> in_flight sys' = []
      \<and> settled sys' (Awaiting p) = Some (Inl e)
      \<and> initialize sys' =
            (Awaiting n,
             sys'\<lparr> promises := promises sys' @ [Pending (AwaitImport 0)],
                   service := (service sys')\<lparr> initializationPromise := Some n \<rparr> \<rparr>)
      \<and> in_flight (snd (initialize sys')) = [n])"
proof -
  define sys where "sys = run evs (boot env)"
  define sys' where "sys' = doInitialize_resume ext p sys"
  have i: "inv sys" unfolding sys_def by (rule inv_reachable)
  then have ip: "inv_pending sys" by (simp add: inv_def)
  have i': "inv sys'" unfolding sys'_def by (rule inv_resume [OF i])
  then have ip': "inv_pending sys'" by (simp add: inv_def)
  from assms have pl: "p < length (promises sys)" and pp: "promises sys ! p = Pending pc"
    and th: "fst (doInitialize_try ext pc (service sys)) = Threw e"
    by (simp_all add: sys_def)
  obtain s1 where tr: "doInitialize_try ext pc (service sys) = (Threw e, s1)"
    using th by (cases "doInitialize_try ext pc (service sys)") simp
  have eq: "sys' = sys\<lparr> service := s1\<lparr> initializationPromise := None \<rparr>,
                        promises := (promises sys)[p := Rejected e] \<rparr>"
    unfolding sys'_def using pl pp tr by (simp add: doInitialize_resume_def)
  from ip pl pp have ni: "\<not> isInitialized (service sys)" and ok: "pc_ok pc (service sys)"
    unfolding inv_pending_def by blast+
  from try_ok [OF ok ni tr] have ni1: "\<not> isInitialized s1" by simp
  have a: "initializationPromise (service sys') = None" by (simp add: eq)
  have b: "\<not> isInitialized (service sys')" using ni1 by (simp add: eq)
  have c: "in_flight sys' = []" by (rule idle_no_flight [OF ip' a])
  have d: "settled sys' (Awaiting p) = Some (Inl e)" using pl by (simp add: eq settled_def)
  note e = initialize_new [OF b a]
  have f: "in_flight (snd (initialize sys')) = [length (promises sys')]"
    by (simp add: e in_flight_append_pending c)
  from a b c d e f show ?thesis
    unfolding sys'_def [symmetric] sys_def [symmetric] Let_def
    by (simp add: isReady_def checkHealth_def)
qed

theorem initialization_failure_resets_witness:
  "(let sys = run (CallInitialize # replicate 6 (Resume 0 stub_externals)) (boot no_env);
        sys' = doInitialize_resume model_missing 0 sys in
      promises sys = [Pending AwaitLoadModel]
      \<and> promises sys' = [Rejected (Error (ascii ''Model file not found''))]
      \<and> initializationPromise (service sys') = None
      \<and> \<not> isInitialized (service sys')
      \<and> settled sys' (Awaiting 0) = Some (Inl (Error (ascii ''Model file not found'')))
      \<and> fst (initialize sys') = Awaiting 1
      \<and> in_flight (snd (initialize sys')) = [1])"
proof -
  define sys where "sys = run (CallInitialize # replicate 6 (Resume 0 stub_externals)) (boot no_env)"
  have p: "promises sys = [Pending AwaitLoadModel]"
    unfolding sys_def by (simp add: stub_eval eval_nat_numeral)
  have q: "fst (doInitialize_try model_missing AwaitLoadModel (service sys)) = Threw (Error (ascii ''Model file not found''))"
    by (simp add: model_missing_def)
  have r: "promises (doInitialize_resume model_missing 0 sys) = [Rejected (Error (ascii ''Model file not found''))]"
    using p by (simp add: doInitialize_resume_def model_missing_def)
  from p have "0 < length (promises sys)" "promises sys ! 0 = Pending AwaitLoadModel" by simp_all
  note T = initialization_failure_resets [OF this [unfolded sys_def] q [unfolded sys_def],
      folded sys_def, unfolded Let_def]
  define sys' where "sys' = doInitialize_resume model_missing 0 sys"
  have n: "length (promises sys') = 1" using r by (simp add: sys'_def)
  have t1: "initializationPromise (service sys') = None" using T unfolding sys'_def by blast
  have t2: "\<not> isInitialized (service sys')" using T unfolding sys'_def by blast
  have t3: "settled sys' (Awaiting 0) = Some (Inl (Error (ascii ''Model file not found'')))"
    using T unfolding sys'_def by blast
  have "fst (initialize sys') = Awaiting (length (promises sys'))" using T unfolding sys'_def by simp
  then have t4: "fst (initialize sys') = Awaiting 1" using n by simp
  have "in_flight (snd (initialize sys')) = [length (promises sys')]" using T unfolding sys'_def by blast
  then have t5: "in_flight (snd (initialize sys')) = [1]" using n by simp
  from p r t1 t2 t3 t4 t5 show ?thesis
    unfolding sys_def [symmetric] sys'_def [symmetric] Let_def by blast
qed

section \<open>Readiness\<close>

text \<open>
  Claim C9. In every reachable state: when \<open>isReady\<close> holds, the language model, the
  vector store and the chat handler are all set; the health endpoint reports
  \<open>initialized\<close> and \<open>ready\<close> with the same value, both true with status 200 exactly
  when some initialization has been fulfilled, both false with status 503 otherwise
  (after failed attempts too); a freshly constructed service reports both false.
\<close>

theorem readiness_invariant:
  fixes env :: "string \<Rightarrow> js_string option" and evs :: "('l, 'v, 'd) event list"
  shows
  "(let sys = run evs (boot env); s = service sys; h = checkHealth s in
      (isReady s \<longrightarrow> llm s \<noteq> None \<and> vectorStore s \<noteq> None \<and> chatHandler s \<noteq> None)
      \<and> rag_initialized h = rag_ready h
      \<and> (if Fulfilled \<in> set (promises sys)
          then rag_initialized h \<and> rag_ready h \<and> http_status h = 200
          else \<not> rag_initialized h \<and> \<not> rag_ready h \<and> http_status h = 503)
      \<and> (checkHealth (service (boot env :: ('l, 'v, 'd) system)) =
            \<lparr> http_status = 503, status_text = ''unhealthy'', rag_initialized = False, rag_ready = False \<rparr>))"
proof -
  define sys where "sys = run evs (boot env)"
  have "inv sys" unfolding sys_def by (rule inv_reachable)
  then have ir: "inv_ready sys" by (simp add: inv_def)
  have a: "isReady (service sys) \<longrightarrow>
      llm (service sys) \<noteq> None \<and> vectorStore (service sys) \<noteq> None \<and> chatHandler (service sys) \<noteq> None"
    using ir by (simp add: isReady_def inv_ready_def)
  have b: "isReady (service sys) \<longleftrightarrow> Fulfilled \<in> set (promises sys)"
    using ir by (auto simp: isReady_def inv_ready_def split: if_splits)
  have c: "checkHealth (service (boot env :: ('l, 'v, 'd) system)) =
            \<lparr> http_status = 503, status_text = ''unhealthy'', rag_initialized = False, rag_ready = False \<rparr>"
    by (simp add: checkHealth_def isReady_def boot_def RagService_constructor_def)
  from a b c show ?thesis
    unfolding sys_def [symmetric] Let_def by (simp add: checkHealth_def)
qed

theorem readiness_invariant_witness:
  "(let sys = run (CallInitialize # replicate 11 (Resume 0 stub_externals)) (boot no_env);
        s = service sys; h = checkHealth s in
      isReady s \<and> llm s = Some StubLLM \<and> vectorStore s = Some [paris_document]
      \<and> chatHandler s \<noteq> None
      \<and> promises sys = [Fulfilled]
      \<and> rag_initialized h \<and> rag_ready h \<and> http_status h = 200)"
proof -
  define sys where "sys = run (CallInitialize # replicate 11 (Resume 0 stub_externals)) (boot no_env)"
  have e: "sys = attempt stub_externals (boot no_env)"
    unfolding sys_def by (simp only: attempt_as_run)
  have p: "promises sys = [Fulfilled]" and l: "llm (service sys) = Some StubLLM"
    and v: "vectorStore (service sys) = Some [paris_document]" and i: "isInitialized (service sys)"
    unfolding e by (simp_all add: stub_attempt)
  from readiness_invariant [of "CallInitialize # replicate 11 (Resume 0 stub_externals)" no_env] p l v i
  show ?thesis unfolding sys_def [symmetric] Let_def by (simp add: isReady_def)
qed

section \<open>Loading or building the vector store\<close>

text \<open>
  The claim as stated fails where the index file exists and cannot be loaded: the
  initialization attempt is rejected with the load error, no store is built from the
  documents, and the service is not ready.
\<close>

theorem corrupt_index_counterexample:
  "(let sys = attempt corrupt_index (boot no_env) in
      existsSync corrupt_index IndexFile
      \<and> FaissStore_load corrupt_index = Inl (Error (ascii ''Could not read index''))
      \<and> loadAndProcessDocuments corrupt_index = Inr [paris_document]
      \<and> promises sys = [Rejected (Error (ascii ''Could not read index''))]
      \<and> vectorStore (service sys) = None
      \<and> \<not> isReady (service sys))"
  unfolding attempt_split [of corrupt_index StubLLM no_env, OF corrupt_ok]
  by (simp add: corrupt_index_def stub_externals_def doInitialize_resume_def
      RagService_constructor_def isReady_def eval_nat_numeral)

text \<open>
  Claim C8, amended. With the modules, the model and the index directory in order: when
  the index file is missing (an existence check made before any load), the
  initialization builds the store from the documents and saves it, or with no documents
  takes the store \<open>initializeVectorStore\<close> returns, and becomes ready; when the index
  file exists, a failing load rejects the attempt with the load error and sets no
  store, and a successful load gives the store. \<open>initializeVectorStore\<close> itself swallows
  a failing load and returns a new empty store.
\<close>

theorem index_load_fallback:
  fixes ext :: "('l, 'v, 'd) externals"
  assumes "\<And>m. import_module ext m = None" "loadModel ext = None" "new_ChatLlamaCpp ext = Inr l"
    "new_XenovaEmbeddings ext = None" "existsSync ext IndexDir \<or> mkdirSync ext IndexDir = None"
  shows
  "(let sys = attempt ext (boot env) in
      (\<not> existsSync ext IndexFile \<longrightarrow>
          (\<forall>ds vs. loadAndProcessDocuments ext = Inr ds \<and> ds \<noteq> []
                    \<and> FaissStore_fromDocuments ext ds = Inr vs \<and> saveVectorStore ext = None \<longrightarrow>
              promises sys = [Fulfilled] \<and> vectorStore (service sys) = Some vs
              \<and> isReady (service sys))
          \<and> (\<forall>vs. loadAndProcessDocuments ext = Inr [] \<and> initializeVectorStore ext = Inr vs \<longrightarrow>
              promises sys = [Fulfilled] \<and> vectorStore (service sys) = Some vs
              \<and> isReady (service sys)))
      \<and> (existsSync ext IndexFile \<longrightarrow>
          (\<forall>e. FaissStore_load ext = Inl e \<longrightarrow>
              promises sys = [Rejected e] \<and> vectorStore (service sys) = None
              \<and> \<not> isReady (service sys) \<and> initializationPromise (service sys) = None)
          \<and> (\<forall>vs. FaissStore_load ext = Inr vs \<longrightarrow>
              promises sys = [Fulfilled] \<and> vectorStore (service sys) = Some vs
              \<and> isReady (service sys)))
      \<and> (\<forall>e. existsSync ext IndexParentDir \<and> FaissStore_load ext = Inl e \<longrightarrow>
              initializeVectorStore ext = Inr (new_FaissStore ext)))"
proof -
  note sp = attempt_split [of ext l env, OF assms]
  note ev = doInitialize_resume_def finish_init_def isReady_def RagService_constructor_def
    eval_nat_numeral
  have a: "\<And>ds vs. \<not> existsSync ext IndexFile \<Longrightarrow> loadAndProcessDocuments ext = Inr ds \<Longrightarrow> ds \<noteq> []
      \<Longrightarrow> FaissStore_fromDocuments ext ds = Inr vs \<Longrightarrow> saveVectorStore ext = None \<Longrightarrow>
      promises (attempt ext (boot env)) = [Fulfilled]
      \<and> vectorStore (service (attempt ext (boot env))) = Some vs
      \<and> isReady (service (attempt ext (boot env)))"
    unfolding sp using assms(1) by (simp add: ev)
  have b: "\<And>vs. \<not> existsSync ext IndexFile \<Longrightarrow> loadAndProcessDocuments ext = Inr []
      \<Longrightarrow> initializeVectorStore ext = Inr vs \<Longrightarrow>
      promises (attempt ext (boot env)) = [Fulfilled]
      \<and> vectorStore (service (attempt ext (boot env))) = Some vs
      \<and> isReady (service (attempt ext (boot env)))"
    unfolding sp by (simp add: ev)
  have c: "\<And>e. existsSync ext IndexFile \<Longrightarrow> FaissStore_load ext = Inl e \<Longrightarrow>
      promises (attempt ext (boot env)) = [Rejected e]
      \<and> vectorStore (service (attempt ext (boot env))) = None
      \<and> \<not> isReady (service (attempt ext (boot env)))
      \<and> initializationPromise (service (attempt ext (boot env))) = None"
    unfolding sp using assms(1) by (simp add: ev)
  have d: "\<And>vs. existsSync ext IndexFile \<Longrightarrow> FaissStore_load ext = Inr vs \<Longrightarrow>
      promises (attempt ext (boot env)) = [Fulfilled]
      \<and> vectorStore (service (attempt ext (boot env))) = Some vs
      \<and> isReady (service (attempt ext (boot env)))"
    unfolding sp using assms(1) by (simp add: ev)
  have e: "\<And>e. existsSync ext IndexParentDir \<Longrightarrow> FaissStore_load ext = Inl e \<Longrightarrow>
      initializeVectorStore ext = Inr (new_FaissStore ext)"
    by (simp add: initializeVectorStore_def)
  show ?thesis unfolding Let_def
    using a b c d e by blast
qed

theorem index_load_fallback_witness:
  "(\<not> existsSync stub_externals IndexFile
    \<and> loadAndProcessDocuments stub_externals = Inr [paris_document]
    \<and> promises (attempt stub_externals (boot no_env)) = [Fulfilled]
    \<and> vectorStore (service (attempt stub_externals (boot no_env))) = Some [paris_document]
    \<and> isReady (service (attempt stub_externals (boot no_env))))
   \<and> (existsSync corrupt_index IndexFile
    \<and> initializationPromise (service (attempt corrupt_index (boot no_env))) = None
    \<and> initializeVectorStore corrupt_index = Inr [])"
proof -
  have h: "\<not> existsSync stub_externals IndexFile"
    "loadAndProcessDocuments stub_externals = Inr [paris_document]"
    "[paris_document] \<noteq> []"
    "FaissStore_fromDocuments stub_externals [paris_document] = Inr [paris_document]"
    "saveVectorStore stub_externals = None"
    by (simp_all add: stub_externals_def saveVectorStore_def)
  have k: "existsSync corrupt_index IndexFile" "existsSync corrupt_index IndexParentDir"
    "FaissStore_load corrupt_index = Inl (Error (ascii ''Could not read index''))"
    "new_FaissStore corrupt_index = []"
    by (simp_all add: corrupt_index_def stub_externals_def)
  note A = index_load_fallback [of stub_externals StubLLM no_env, OF stub_ok, unfolded Let_def]
  note B = index_load_fallback [of corrupt_index StubLLM no_env, OF corrupt_ok, unfolded Let_def]
  have a: "promises (attempt stub_externals (boot no_env)) = [Fulfilled]
    \<and> vectorStore (service (attempt stub_externals (boot no_env))) = Some [paris_document]
    \<and> isReady (service (attempt stub_externals (boot no_env)))"
    using A h by blast
  have b: "initializationPromise (service (attempt corrupt_index (boot no_env))) = None"
    using B k by blast
  have c: "initializeVectorStore corrupt_index = Inr []"
    using B k by metis
  from a b c h k show ?thesis by blast
qed

section \<open>The stream adapter keeps the order of the fragments\<close>

lemma consumer_turn_keeps:
  "yielded (consumer_turn st) @ chunkQueue (consumer_turn st) = yielded st @ chunkQueue st"
  by (simp add: consumer_turn_def split: list.splits)

lemma stream_step_pushed:
  "yielded (stream_step ev st) @ chunkQueue (stream_step ev st)
     = yielded st @ chunkQueue st @ pushed [ev]"
  by (cases ev) (simp_all add: consumer_turn_keeps)

lemma pushed_Cons: "pushed (ev # evs) = pushed [ev] @ pushed evs"
  by (cases ev) simp_all

lemma stream_run_pushed:
  "yielded (stream_run evs st) @ chunkQueue (stream_run evs st)
     = yielded st @ chunkQueue st @ pushed evs"
proof (induction evs arbitrary: st)
  case Nil
  then show ?case by simp
next
  case (Cons ev evs)
  have "yielded (stream_run (ev # evs) st) @ chunkQueue (stream_run (ev # evs) st)
      = yielded (stream_step ev st) @ chunkQueue (stream_step ev st) @ pushed evs"
    using Cons.IH [of "stream_step ev st"] by simp
  also have "\<dots> = (yielded st @ chunkQueue st @ pushed [ev]) @ pushed evs"
    using stream_step_pushed [of ev st] by (metis append.assoc)
  finally show ?case using pushed_Cons [of ev evs] by simp
qed

lemma pushed_replicate: "pushed (replicate k ConsumerTurn) = []"
  by (induction k) simp_all

lemma stream_run_append: "stream_run (xs @ ys) st = stream_run ys (stream_run xs st)"
  by (induction xs arbitrary: st) simp_all

lemma unsettled_step:
  "unsettled st \<Longrightarrow> \<not> is_settlement ev \<Longrightarrow> unsettled (stream_step ev st)"
  by (cases ev) (auto simp: unsettled_def consumer_turn_def split: list.splits)

lemma unsettled_run:
  "unsettled st \<Longrightarrow> \<forall>ev \<in> set evs. \<not> is_settlement ev \<Longrightarrow> unsettled (stream_run evs st)"
  by (induction evs arbitrary: st) (simp_all add: unsettled_step)

lemma draining_start:
  "unsettled st \<Longrightarrow> is_settlement t \<Longrightarrow> draining t (stream_step t st)"
  by (cases t) (simp_all add: unsettled_def draining_def)

lemma draining_turn: "draining t st \<Longrightarrow> draining t (consumer_turn st)"
  by (cases t)
     (auto simp: draining_def consumer_turn_def stream_end_of_def split: list.splits)

lemma draining_run:
  "draining t st \<Longrightarrow> \<forall>ev \<in> set evs. ev = ConsumerTurn \<Longrightarrow> draining t (stream_run evs st)"
  by (induction evs arbitrary: st) (simp_all add: draining_turn)

lemma finished_stays:
  "finished st \<noteq> None \<Longrightarrow> stream_run (replicate k ConsumerTurn) st = st"
  by (induction k) (simp_all add: consumer_turn_def)

lemma draining_finishes:
  "draining t st \<Longrightarrow> length (chunkQueue st) < n \<Longrightarrow>
     finished (stream_run (replicate n ConsumerTurn) st) = Some (stream_end_of t)"
proof (induction n arbitrary: st)
  case 0
  then show ?case by simp
next
  case (Suc n)
  show ?case
  proof (cases "finished st")
    case (Some x)
    with Suc.prems(1) have f: "finished st = Some (stream_end_of t)" by (simp add: draining_def)
    then have "stream_run (replicate (Suc n) ConsumerTurn) st = st"
      by (intro finished_stays) simp
    with f show ?thesis by metis
  next
    case None
    show ?thesis
    proof (cases "chunkQueue st")
      case Nil
      with None Suc.prems(1) have f: "finished (consumer_turn st) = Some (stream_end_of t)"
        by (cases t) (auto simp: draining_def consumer_turn_def stream_end_of_def)
      then have "stream_run (replicate n ConsumerTurn) (consumer_turn st) = consumer_turn st"
        by (intro finished_stays) simp
      with f show ?thesis by simp
    next
      case (Cons c rest)
      with None have l: "length (chunkQueue (consumer_turn st)) < n"
        using Suc.prems(2) by (simp add: consumer_turn_def)
      from Suc.IH [OF draining_turn [OF Suc.prems(1)] l] show ?thesis by simp
    qed
  qed
qed

text \<open>A trace whose producer part is \<open>cs\<close> pushed and then one settlement \<open>t\<close>.\<close>

lemma only_consumer_turns:
  "filter is_producer xs = [] \<Longrightarrow> \<forall>ev \<in> set xs. ev = ConsumerTurn"
proof
  fix ev assume "filter is_producer xs = []" "ev \<in> set xs"
  then have "\<not> is_producer ev" by (simp add: filter_empty_conv)
  then show "ev = ConsumerTurn" by (cases ev) simp_all
qed

lemma valid_trace_split:
  "filter is_producer evs = map OnTextChunk cs @ [t] \<Longrightarrow>
     \<exists>us vs. evs = us @ t # vs \<and> pushed us = cs \<and> (\<forall>ev \<in> set us. \<not> is_settlement ev)
           \<and> (\<forall>ev \<in> set vs. ev = ConsumerTurn)"
proof (induction evs arbitrary: cs)
  case Nil
  then show ?case by simp
next
  case (Cons x xs)
  have last_one: "\<And>y. y # filter is_producer xs = [t] \<Longrightarrow> x = y \<Longrightarrow> cs = [] \<Longrightarrow> ?case"
  proof -
    fix y assume "y # filter is_producer xs = [t]" "x = y" "cs = []"
    then have "x = t" "filter is_producer xs = []" by simp_all
    from only_consumer_turns [OF this(2)] \<open>x = t\<close> \<open>cs = []\<close>
    have "x # xs = [] @ t # xs \<and> pushed [] = cs \<and> (\<forall>ev \<in> set []. \<not> is_settlement ev)
           \<and> (\<forall>ev \<in> set xs. ev = ConsumerTurn)" by simp
    then show ?case by blast
  qed
  have extend: "\<And>ds. filter is_producer xs = map OnTextChunk ds @ [t] \<Longrightarrow> \<not> is_settlement x
      \<Longrightarrow> pushed [x] @ ds = cs \<Longrightarrow> ?case"
  proof -
    fix ds assume f: "filter is_producer xs = map OnTextChunk ds @ [t]" and ns: "\<not> is_settlement x"
      and pc: "pushed [x] @ ds = cs"
    from Cons.IH [OF f] obtain us vs where "xs = us @ t # vs" "pushed us = ds"
      "\<forall>ev \<in> set us. \<not> is_settlement ev" "\<forall>ev \<in> set vs. ev = ConsumerTurn" by blast
    with ns pc pushed_Cons [of x us]
    have "x # xs = (x # us) @ t # vs \<and> pushed (x # us) = cs \<and> (\<forall>ev \<in> set (x # us). \<not> is_settlement ev)
           \<and> (\<forall>ev \<in> set vs. ev = ConsumerTurn)" by simp
    then show ?case by blast
  qed
  show ?case
  proof (cases x)
    case ConsumerTurn
    with Cons.prems have "filter is_producer xs = map OnTextChunk cs @ [t]" by simp
    from extend [OF this] ConsumerTurn show ?thesis by simp
  next
    case (OnTextChunk c)
    show ?thesis
    proof (cases cs)
      case Nil
      with Cons.prems OnTextChunk show ?thesis using last_one [of x] by simp
    next
      case (Cons d ds)
      with Cons.prems OnTextChunk have "c = d" "filter is_producer xs = map OnTextChunk ds @ [t]"
        by simp_all
      from extend [OF this(2)] OnTextChunk Cons \<open>c = d\<close> show ?thesis by simp
    qed
  next
    case PromptResolved
    with Cons.prems have "cs = []" by (cases cs) simp_all
    with Cons.prems PromptResolved show ?thesis using last_one [of x] by simp
  next
    case (PromptRejected m)
    with Cons.prems have "cs = []" by (cases cs) simp_all
    with Cons.prems PromptRejected show ?thesis using last_one [of x] by simp
  qed
qed

lemma valid_trace_state:
  assumes "filter is_producer evs = map OnTextChunk cs @ [t]" and "is_settlement t"
  shows "draining t (stream_run evs stream_start)"
    and "yielded (stream_run evs stream_start) @ chunkQueue (stream_run evs stream_start) = cs"
proof -
  from valid_trace_split [OF assms(1)] obtain us vs where e: "evs = us @ t # vs"
    and p: "pushed us = cs" and u: "\<forall>ev \<in> set us. \<not> is_settlement ev"
    and v: "\<forall>ev \<in> set vs. ev = ConsumerTurn"
    by blast
  have "unsettled stream_start" by (simp add: unsettled_def stream_start_def)
  from unsettled_run [OF this u] have "unsettled (stream_run us stream_start)" .
  from draining_start [OF this assms(2)] have "draining t (stream_step t (stream_run us stream_start))" .
  from draining_run [OF this v] show "draining t (stream_run evs stream_start)"
    by (simp add: e stream_run_append)
  have pv: "pushed vs = []" using v by (induction vs) simp_all
  have pt: "pushed [t] = []" using assms(2) by (cases t) simp_all
  have "pushed evs = cs"
  proof -
    have pa: "\<And>xs ys. pushed (xs @ ys) = pushed xs @ pushed ys"
    proof -
      fix xs ys show "pushed (xs @ ys) = pushed xs @ pushed ys"
        by (induction xs rule: pushed.induct) simp_all
    qed
    have "pushed (t # vs) = []" using pushed_Cons [of t vs] pv pt by simp
    with p show ?thesis by (simp add: e pa)
  qed
  with stream_run_pushed [of evs stream_start]
  show "yielded (stream_run evs stream_start) @ chunkQueue (stream_run evs stream_start) = cs"
    by (simp add: stream_start_def)
qed

text \<open>
  Claim C3. At every moment of any trace, what the generator has yielded followed by
  what is still queued is exactly what the producer has pushed, in the order pushed.
  For any interleaving in which the producer pushes the fragments \<open>cs\<close> and then settles:
  once the generator has finished it has yielded exactly \<open>cs\<close>; given as many turns as
  there are fragments and one more it has finished, as the settlement says; and the
  concatenation of what it yielded is the concatenation of \<open>cs\<close>, the text a producer
  returning the whole response at once hands back.
\<close>

theorem stream_adapter_order:
  assumes "filter is_producer evs = map OnTextChunk cs @ [t]" and "is_settlement t"
  shows
  "(let st = stream_run evs stream_start;
        st' = stream_run (evs @ replicate (Suc (length cs)) ConsumerTurn) stream_start in
      (\<forall>tr. yielded (stream_run tr stream_start) @ chunkQueue (stream_run tr stream_start) = pushed tr)
      \<and> yielded st @ chunkQueue st = cs
      \<and> (finished st \<noteq> None \<longrightarrow> yielded st = cs \<and> finished st = Some (stream_end_of t))
      \<and> yielded st' = cs
      \<and> finished st' = Some (stream_end_of t)
      \<and> concat (yielded st') = concat cs)"
proof -
  define st where "st = stream_run evs stream_start"
  define st' where "st' = stream_run (evs @ replicate (Suc (length cs)) ConsumerTurn) stream_start"
  have d: "draining t st" and y: "yielded st @ chunkQueue st = cs"
    unfolding st_def using valid_trace_state [OF assms] by simp_all
  have a: "\<forall>tr. yielded (stream_run tr stream_start) @ chunkQueue (stream_run tr stream_start) = pushed tr"
    using stream_run_pushed [of _ stream_start] by (simp add: stream_start_def)
  have b: "finished st \<noteq> None \<longrightarrow> yielded st = cs \<and> finished st = Some (stream_end_of t)"
    using d y by (auto simp: draining_def)
  have e: "st' = stream_run (replicate (Suc (length cs)) ConsumerTurn) st"
    by (simp only: st'_def st_def stream_run_append)
  have "length (chunkQueue st) \<le> length cs"
    using y by (metis length_append le_add2)
  then have l: "length (chunkQueue st) < Suc (length cs)" by simp
  have f: "finished st' = Some (stream_end_of t)"
    unfolding e by (rule draining_finishes [OF d l])
  have d': "draining t st'"
    unfolding e by (rule draining_run [OF d]) simp
  have y': "yielded st' @ chunkQueue st' = cs"
    using stream_run_pushed [of "replicate (Suc (length cs)) ConsumerTurn" st] y
    unfolding e [symmetric]
    by (simp add: pushed_replicate)
  from d' f have "chunkQueue st' = []" by (auto simp: draining_def)
  with y' have g: "yielded st' = cs" by simp
  from a y b g f show ?thesis
    unfolding st_def [symmetric] st'_def [symmetric] Let_def by simp
qed

theorem stream_adapter_order_witness:
  "(let evs = [OnTextChunk (ascii ''Par''), ConsumerTurn, ConsumerTurn, OnTextChunk (ascii ''is''),
               PromptResolved, ConsumerTurn];
        cs = [ascii ''Par'', ascii ''is''];
        st' = stream_run (evs @ replicate (Suc (length cs)) ConsumerTurn) stream_start in
      filter is_producer evs = map OnTextChunk cs @ [PromptResolved]
      \<and> is_settlement PromptResolved
      \<and> yielded st' = cs
      \<and> finished st' = Some Returned
      \<and> concat (yielded st') = ascii ''Paris'')"
proof -
  define evs where "evs = [OnTextChunk (ascii ''Par''), ConsumerTurn, ConsumerTurn,
    OnTextChunk (ascii ''is''), PromptResolved, ConsumerTurn]"
  define cs where "cs = [ascii ''Par'', ascii ''is'']"
  have a: "filter is_producer evs = map OnTextChunk cs @ [PromptResolved]"
    by (simp add: evs_def cs_def)
  have b: "is_settlement PromptResolved" by simp
  have c: "concat cs = ascii ''Paris''" by (simp add: cs_def ascii_def)
  have d: "stream_end_of PromptResolved = Returned" by (simp add: stream_end_of_def)
  from stream_adapter_order [OF a b] a b c d show ?thesis
    unfolding evs_def [symmetric] cs_def [symmetric] Let_def by simp
qed

lemma failing_stream:
  assumes "filter is_producer tr = map OnTextChunk cs @ [PromptRejected m]"
  shows "yielded (stream_run (tr @ replicate (Suc (length cs)) ConsumerTurn) stream_start) = cs"
    and "finished (stream_run (tr @ replicate (Suc (length cs)) ConsumerTurn) stream_start)
           = Some (Thrown (Error (ascii ''Streaming error: '' @ m)))"
proof -
  define st where "st = stream_run tr stream_start"
  define st' where "st' = stream_run (tr @ replicate (Suc (length cs)) ConsumerTurn) stream_start"
  have s: "is_settlement (PromptRejected m)" by simp
  have d: "draining (PromptRejected m) st" and y: "yielded st @ chunkQueue st = cs"
    unfolding st_def using valid_trace_state [OF assms s] by simp_all
  have e: "st' = stream_run (replicate (Suc (length cs)) ConsumerTurn) st"
    by (simp only: st'_def st_def stream_run_append)
  have "length (chunkQueue st) \<le> length cs"
    using y by (metis length_append le_add2)
  then have l: "length (chunkQueue st) < Suc (length cs)" by simp
  have f: "finished st' = Some (stream_end_of (PromptRejected m))"
    unfolding e by (rule draining_finishes [OF d l])
  have d': "draining (PromptRejected m) st'"
    unfolding e by (rule draining_run [OF d]) simp
  have y': "yielded st' @ chunkQueue st' = cs"
    using stream_run_pushed [of "replicate (Suc (length cs)) ConsumerTurn" st] y
    unfolding e [symmetric]
    by (simp add: pushed_replicate)
  from d' f have "chunkQueue st' = []" by (auto simp: draining_def)
  with y' show "yielded (stream_run (tr @ replicate (Suc (length cs)) ConsumerTurn) stream_start) = cs"
    by (simp add: st'_def)
  from f show "finished (stream_run (tr @ replicate (Suc (length cs)) ConsumerTurn) stream_start)
           = Some (Thrown (Error (ascii ''Streaming error: '' @ m)))"
    by (simp add: st'_def stream_end_of_def)
qed

lemma stream_events_shape:
  "\<exists>cs t. stream_events lookup query k got = map ChunkEvent cs @ [t]
            \<and> (\<exists>m. t = DoneEvent m \<or> t = ErrorEvent m)"
proof -
  have A: "\<And>m. \<exists>cs t. [ErrorEvent m] = map ChunkEvent cs @ [t]
            \<and> (\<exists>m. t = DoneEvent m \<or> t = ErrorEvent m)"
  proof -
    fix m
    have "[ErrorEvent m] = map ChunkEvent [] @ [ErrorEvent m]
        \<and> (\<exists>m'. ErrorEvent m = DoneEvent m' \<or> ErrorEvent m = ErrorEvent m')" by simp
    then show "\<exists>cs t. [ErrorEvent m] = map ChunkEvent cs @ [t]
            \<and> (\<exists>m. t = DoneEvent m \<or> t = ErrorEvent m)" by blast
  qed
  have B: "\<And>chunks t. (\<exists>m. t = DoneEvent m \<or> t = ErrorEvent m) \<Longrightarrow>
      \<exists>cs t'. map ChunkEvent chunks @ [t] = map ChunkEvent cs @ [t']
            \<and> (\<exists>m. t' = DoneEvent m \<or> t' = ErrorEvent m)"
    by blast
  show ?thesis
  proof (cases got)
    case (Inl e)
    then show ?thesis using A by (simp add: stream_events_def)
  next
    case (Inr h)
    show ?thesis
    proof (cases "lookup h")
      case None
      with Inr show ?thesis using A by (simp add: stream_events_def)
    next
      case (Some f)
      show ?thesis
      proof (cases "f query k")
        case (Inl e)
        with Inr Some show ?thesis using A by (simp add: stream_events_def)
      next
        case (Inr s)
        obtain chunks en where s: "s = (chunks, en)" by (cases s)
        show ?thesis
        proof (cases en)
          case Returned
          with \<open>got = Inr h\<close> Some Inr s
          have "stream_events lookup query k got
              = map ChunkEvent chunks @ [DoneEvent (ascii ''Stream completed'')]"
            by (simp add: stream_events_def)
          then show ?thesis using B [of "DoneEvent (ascii ''Stream completed'')" chunks] by simp
        next
          case (Thrown e)
          with \<open>got = Inr h\<close> Some Inr s
          have "stream_events lookup query k got
              = map ChunkEvent chunks @ [ErrorEvent (error_message e)]"
            by (simp add: stream_events_def)
          then show ?thesis using B [of "ErrorEvent (error_message e)" chunks] by simp
        qed
      qed
    qed
  qed
qed

lemma resume_none_iff:
  "streamChat_resume lookup body rs sys2 = None
     \<longleftrightarrow> (\<exists>h q. rs = Waiting h q \<and> settled sys2 h = None)"
  by (cases rs)
     (auto simp: streamChat_resume_def getChatHandler_finish_def
           split: option.splits sum.splits)

lemma resume_repository_handler:
  assumes "settled sys2 h \<noteq> None"
  shows "\<exists>m. streamChat_resume ChatHandler_streamResponse body (Waiting h q) sys2
           = Some [ErrorEvent m]"
proof -
  from assms have "\<exists>got. getChatHandler_finish sys2 h = Some got"
    by (auto simp: getChatHandler_finish_def split: option.splits sum.splits)
  then obtain got where g: "getChatHandler_finish sys2 h = Some got" by blast
  have "\<exists>m. stream_events ChatHandler_streamResponse q
      (effective_topK (body_topK body) (service sys2)) got = [ErrorEvent m]"
    by (cases got) (simp_all add: stream_events_def ChatHandler_streamResponse_def)
  with g show ?thesis by (simp add: streamChat_resume_def)
qed

lemma adapter_failing:
  assumes "filter is_producer tr = map OnTextChunk cs @ [PromptRejected m]"
  shows "adapter_stream (tr @ replicate (Suc (length cs)) ConsumerTurn)
           = Some (cs, Thrown (Error (ascii ''Streaming error: '' @ m)))"
  using failing_stream [OF assms] by (simp add: adapter_stream_def Let_def)

text \<open>
  Claim C6. A streaming request emits nothing only while the promise it waits for is
  unsettled; otherwise it has emitted its events, and for every handler these are chunk
  events followed by exactly one terminal event, a completion or an error, which is
  last. With the handler of the repository, which has no streaming method, a request
  that waited emits exactly one error event once the promise has settled. For a handler
  that has one: a stream that ends normally gives its fragments as chunk events and then
  the completion event; a stream that yields \<open>cs\<close> and then throws gives the chunk events
  of \<open>cs\<close> and then one error event, with the message of the \<open>Error\<close> thrown or a fixed
  text for any other thrown value. The adapter, on a producer that pushes \<open>cs\<close> and then
  rejects with message \<open>m\<close>, yields all of \<open>cs\<close> and then throws an \<open>Error\<close> with message
  \<open>Streaming error: m\<close>; a streaming method handing that stream on ends the events with
  the error event of that message.
\<close>

theorem terminal_event_discipline:
  "(streamChat_resume lookup body (fst (streamChat body sys)) sys2 = None
      \<longleftrightarrow> (\<exists>h q. fst (streamChat body sys) = Waiting h q \<and> settled sys2 h = None))
   \<and> (\<forall>evs. streamChat_resume lookup body (fst (streamChat body sys)) sys2 = Some evs \<longrightarrow>
          (\<exists>cs t. evs = map ChunkEvent cs @ [t] \<and> (\<exists>m. t = DoneEvent m \<or> t = ErrorEvent m)))
   \<and> (\<forall>h q. fst (streamChat body sys) = Waiting h q \<and> settled sys2 h \<noteq> None \<longrightarrow>
          (\<exists>m. streamChat_resume ChatHandler_streamResponse body (fst (streamChat body sys)) sys2
                 = Some [ErrorEvent m]))
   \<and> (\<forall>h f cs. lookup h = Some f \<and> f query k = Inr (cs, Returned) \<longrightarrow>
          stream_events lookup query k (Inr h)
            = map ChunkEvent cs @ [DoneEvent (ascii ''Stream completed'')])
   \<and> (\<forall>h f cs e. lookup h = Some f \<and> f query k = Inr (cs, Thrown e) \<longrightarrow>
          stream_events lookup query k (Inr h)
            = map ChunkEvent cs
              @ [ErrorEvent (case e of Error m \<Rightarrow> m | NonError v \<Rightarrow> ascii ''Unknown error occurred'')])
   \<and> (\<forall>tr cs m. filter is_producer tr = map OnTextChunk cs @ [PromptRejected m] \<longrightarrow>
          adapter_stream (tr @ replicate (Suc (length cs)) ConsumerTurn)
            = Some (cs, Thrown (Error (ascii ''Streaming error: '' @ m)))
          \<and> (\<forall>h. stream_events (relay (tr @ replicate (Suc (length cs)) ConsumerTurn)) query k (Inr h)
                 = map ChunkEvent cs @ [ErrorEvent (ascii ''Streaming error: '' @ m)]))"
proof -
  have a: "streamChat_resume lookup body (fst (streamChat body sys)) sys2 = None
      \<longleftrightarrow> (\<exists>h q. fst (streamChat body sys) = Waiting h q \<and> settled sys2 h = None)"
    by (rule resume_none_iff)
  have b: "\<forall>evs. streamChat_resume lookup body (fst (streamChat body sys)) sys2 = Some evs \<longrightarrow>
          (\<exists>cs t. evs = map ChunkEvent cs @ [t] \<and> (\<exists>m. t = DoneEvent m \<or> t = ErrorEvent m))"
  proof (intro allI impI)
    fix evs assume h: "streamChat_resume lookup body (fst (streamChat body sys)) sys2 = Some evs"
    show "\<exists>cs t. evs = map ChunkEvent cs @ [t] \<and> (\<exists>m. t = DoneEvent m \<or> t = ErrorEvent m)"
    proof (cases "fst (streamChat body sys)")
      case (Answered es)
      then have "es = [ErrorEvent (ascii ''Query is required and must be a non-empty string'')]"
        by (auto simp: streamChat_def split: option.splits prod.splits)
      moreover from Answered h have "evs = es" by (simp add: streamChat_resume_def)
      ultimately have "evs = map ChunkEvent [] @ [ErrorEvent (ascii ''Query is required and must be a non-empty string'')]"
        by simp
      then show ?thesis by blast
    next
      case (Waiting hd q)
      with h obtain got where
        "evs = stream_events lookup q (effective_topK (body_topK body) (service sys2)) got"
        by (auto simp: streamChat_resume_def split: option.splits)
      then show ?thesis using stream_events_shape by simp
    qed
  qed
  have c: "\<forall>h q. fst (streamChat body sys) = Waiting h q \<and> settled sys2 h \<noteq> None \<longrightarrow>
          (\<exists>m. streamChat_resume ChatHandler_streamResponse body (fst (streamChat body sys)) sys2
                 = Some [ErrorEvent m])"
    using resume_repository_handler by metis
  have d: "\<forall>h f cs. lookup h = Some f \<and> f query k = Inr (cs, Returned) \<longrightarrow>
          stream_events lookup query k (Inr h)
            = map ChunkEvent cs @ [DoneEvent (ascii ''Stream completed'')]"
    by (simp add: stream_events_def)
  have e: "\<forall>h f cs e. lookup h = Some f \<and> f query k = Inr (cs, Thrown e) \<longrightarrow>
          stream_events lookup query k (Inr h)
            = map ChunkEvent cs
              @ [ErrorEvent (case e of Error m \<Rightarrow> m | NonError v \<Rightarrow> ascii ''Unknown error occurred'')]"
    by (simp add: stream_events_def error_message_def)
  have f: "\<forall>tr cs m. filter is_producer tr = map OnTextChunk cs @ [PromptRejected m] \<longrightarrow>
          adapter_stream (tr @ replicate (Suc (length cs)) ConsumerTurn)
            = Some (cs, Thrown (Error (ascii ''Streaming error: '' @ m)))
          \<and> (\<forall>h. stream_events (relay (tr @ replicate (Suc (length cs)) ConsumerTurn)) query k (Inr h)
                 = map ChunkEvent cs @ [ErrorEvent (ascii ''Streaming error: '' @ m)])"
  proof (intro allI impI)
    fix tr cs m assume v: "filter is_producer tr = map OnTextChunk cs @ [PromptRejected m]"
    note s = adapter_failing [OF v]
    show "adapter_stream (tr @ replicate (Suc (length cs)) ConsumerTurn)
            = Some (cs, Thrown (Error (ascii ''Streaming error: '' @ m)))
          \<and> (\<forall>h. stream_events (relay (tr @ replicate (Suc (length cs)) ConsumerTurn)) query k (Inr h)
                 = map ChunkEvent cs @ [ErrorEvent (ascii ''Streaming error: '' @ m)])"
      unfolding stream_events_def relay_def s by (simp add: error_message_def)
  qed
  from a b c d e f show ?thesis by blast
qed

section \<open>Query validation and prompt assembly\<close>

lemma trim_empty_iff: "trim s = [] \<longleftrightarrow> (\<forall>c \<in> set s. is_white_space c)"
proof -
  have "trim s = [] \<longleftrightarrow> (\<forall>c \<in> set (dropWhile is_white_space s). is_white_space c)"
    by (simp add: trim_def dropWhile_eq_Nil_conv)
  also have "\<dots> \<longleftrightarrow> dropWhile is_white_space s = []"
  proof
    assume a: "\<forall>c \<in> set (dropWhile is_white_space s). is_white_space c"
    show "dropWhile is_white_space s = []"
    proof (rule ccontr)
      assume n: "dropWhile is_white_space s \<noteq> []"
      then have "\<not> is_white_space (hd (dropWhile is_white_space s))" by (rule hd_dropWhile)
      moreover from n have "hd (dropWhile is_white_space s) \<in> set (dropWhile is_white_space s)" by simp
      ultimately show False using a by blast
    qed
  next
    assume "dropWhile is_white_space s = []"
    then show "\<forall>c \<in> set (dropWhile is_white_space s). is_white_space c"
      by (auto dest: set_dropWhileD)
  qed
  also have "\<dots> \<longleftrightarrow> (\<forall>c \<in> set s. is_white_space c)"
    by (simp add: dropWhile_eq_Nil_conv)
  finally show ?thesis .
qed

lemma valid_query_None_iff:
  "valid_query q = None \<longleftrightarrow> (\<forall>s. q = JString s \<longrightarrow> (\<forall>c \<in> set s. is_white_space c))"
  by (cases q) (auto simp: valid_query_def trim_empty_iff)

text \<open>
  The claim as stated fails for the whole-answer operation: \<open>generateResponse\<close> given
  the empty query makes the retrieval call and the generation call and returns the
  answer.
\<close>

theorem empty_query_answered_counterexample:
  "valid_query (JString []) = None
   \<and> generateResponse stub_collaborators ready_handler [] JUndefined =
       (Inr (JString (ascii ''Paris'')),
        [RetrievalCall [] (JNumber 3),
         GenerationCall [SystemMessage (systemPrompt (build_context [paris_document])), HumanMessage []]])"
  by (simp add: valid_query_def generateResponse_def similaritySearch_def default_param_def
      stub_collaborators_def ready_handler_def build_messages_def response_text_def js_or_def
      Let_def)

text \<open>
  Claim C5, amended. For every request whose query is not a string, or is a string of
  white space only (the empty string included), the streaming endpoint answers at once
  with the single error event \<open>Query is required and must be a non-empty string\<close>, the
  system is left as it was (no initialization is started, nothing is asked of the
  handler), and whatever the handler and the later state are, these stay the
  request's events.
\<close>

theorem invalid_query_rejected:
  assumes "\<forall>s. body_query body = JString s \<longrightarrow> (\<forall>c \<in> set s. is_white_space c)"
  shows
  "streamChat body sys =
     (Answered [ErrorEvent (ascii ''Query is required and must be a non-empty string'')], sys)
   \<and> streamChat_resume lookup body (fst (streamChat body sys)) sys2 =
       Some [ErrorEvent (ascii ''Query is required and must be a non-empty string'')]"
proof -
  from assms have "valid_query (body_query body) = None" by (simp add: valid_query_None_iff)
  then show ?thesis by (simp add: streamChat_def streamChat_resume_def)
qed

theorem invalid_query_rejected_witness:
  "list_all is_white_space [0x20, 0x09, 0x0A, 0x3000]
   \<and> streamChat \<lparr> body_query = JString [0x20, 0x09, 0x0A, 0x3000], body_topK = JNumber 1 \<rparr>
       (boot no_env :: (stub_llm, document list, document) system) =
     (Answered [ErrorEvent (ascii ''Query is required and must be a non-empty string'')], boot no_env)
   \<and> streamChat \<lparr> body_query = JNumber 42, body_topK = JUndefined \<rparr>
       (boot no_env :: (stub_llm, document list, document) system) =
     (Answered [ErrorEvent (ascii ''Query is required and must be a non-empty string'')], boot no_env)"
proof -
  have w: "\<forall>c \<in> set [0x20, 0x09, 0x0A, 0x3000 :: 16 word]. is_white_space c"
    by (simp add: is_white_space_def)
  have a: "\<forall>s. body_query \<lparr> body_query = JString [0x20, 0x09, 0x0A, 0x3000], body_topK = JNumber 1 \<rparr> = JString s
      \<longrightarrow> (\<forall>c \<in> set s. is_white_space c)"
    using w by simp
  have b: "\<forall>s. body_query \<lparr> body_query = JNumber 42, body_topK = JUndefined \<rparr> = JString s
      \<longrightarrow> (\<forall>c \<in> set s. is_white_space c)"
    by simp
  from w have "list_all is_white_space [0x20, 0x09, 0x0A, 0x3000]" by (simp add: list_all_iff)
  with invalid_query_rejected [OF a] invalid_query_rejected [OF b]
  show ?thesis by blast
qed

lemma indexed_map:
  "map (\<lambda>(index, doc). f index doc) (enumerate 0 xs) = map (\<lambda>i. f i (xs ! i)) [0 ..< length xs]"
  by (rule nth_equalityI) (simp_all add: nth_enumerate_eq)

lemma build_context_nth:
  "build_context docs =
     js_join [0x0A, 0x0A]
       (map (\<lambda>i. ascii ''[Document '' @ nat_to_string (Suc i) @ ascii '']'' @ [0x0A]
                  @ pageContent (docs ! i)) [0 ..< length docs])"
  unfolding build_context_def document_label_def by (simp add: indexed_map)

text \<open>
  Claim C7. The context block is the retrieved documents in the order retrieved, the
  one at position \<open>i\<close> (from 0) printed as \<open>[Document i+1]\<close>, a line feed and its text,
  joined by blank lines (written out for one and for two documents); with no documents
  it is empty. The system prompt is the preamble, which tells the model to use its own
  knowledge where the context does not help, then \<open>Context:\<close>, the context block and
  the closing instruction. When retrieval returns \<open>docs\<close> (empty or not) and the model
  answers, \<open>generateResponse\<close> makes one retrieval call and one generation call, with
  that system prompt followed by the raw query as the user message, and returns the
  answer's text. When retrieval throws, the error is rethrown and no generation call is
  made.
\<close>

theorem prompt_assembly:
  "build_context docs =
     js_join [0x0A, 0x0A]
       (map (\<lambda>i. ascii ''[Document '' @ nat_to_string (Suc i) @ ascii '']'' @ [0x0A]
                  @ pageContent (docs ! i)) [0 ..< length docs])
   \<and> nat_to_string 1 = ascii ''1'' \<and> nat_to_string 2 = ascii ''2'' \<and> nat_to_string 12 = ascii ''12''
   \<and> build_context [] = []
   \<and> build_context [d1] = ascii ''[Document 1]'' @ [0x0A] @ pageContent d1
   \<and> build_context [d1, d2] =
        ascii ''[Document 1]'' @ [0x0A] @ pageContent d1 @ [0x0A, 0x0A]
        @ ascii ''[Document 2]'' @ [0x0A] @ pageContent d2
   \<and> systemPrompt context =
        ascii ''You are a helpful assistant. Use the following context to answer the user's question. If the context doesn't contain relevant information, use your knowledge to provide a helpful response.''
        @ [0x0A, 0x0A] @ ascii ''Context:'' @ [0x0A] @ context @ [0x0A, 0x0A]
        @ ascii ''Answer the user's question based on the context provided above.''
   \<and> response_text result =
        (if js_truthy (result_content result) then result_content result
         else if js_truthy (result_text result) then result_text result else JString [])
   \<and> (\<forall>v l result.
        ch_vectorStore h = Some v \<and> ch_llm h = Some l
        \<and> vs_similaritySearch c v query (default_param k (JNumber 3)) = Inr docs
        \<and> llm_invoke c l [SystemMessage (systemPrompt (build_context docs)), HumanMessage query]
            = Inr result \<longrightarrow>
        generateResponse c h query k =
          (Inr (response_text result),
           [RetrievalCall query (default_param k (JNumber 3)),
            GenerationCall [SystemMessage (systemPrompt (build_context docs)), HumanMessage query]]))
   \<and> (\<forall>v e.
        ch_vectorStore h = Some v
        \<and> vs_similaritySearch c v query (default_param k (JNumber 3)) = Inl e \<longrightarrow>
        generateResponse c h query k = (Inl e, [RetrievalCall query (default_param k (JNumber 3))]))"
proof -
  have n: "nat_to_string 1 = ascii ''1'' \<and> nat_to_string 2 = ascii ''2'' \<and> nat_to_string 12 = ascii ''12''"
    by (simp add: nat_to_string.simps ascii_def)
  have a: "build_context [] = []" by (simp add: build_context_def enumerate_simps)
  have a1: "build_context [d1] = ascii ''[Document 1]'' @ [0x0A] @ pageContent d1"
    by (simp add: build_context_def document_label_def nat_to_string.simps ascii_def)
  have a2: "build_context [d1, d2] =
        ascii ''[Document 1]'' @ [0x0A] @ pageContent d1 @ [0x0A, 0x0A]
        @ ascii ''[Document 2]'' @ [0x0A] @ pageContent d2"
    by (simp add: build_context_def document_label_def nat_to_string.simps ascii_def)
  have b: "systemPrompt context =
        ascii ''You are a helpful assistant. Use the following context to answer the user's question. If the context doesn't contain relevant information, use your knowledge to provide a helpful response.''
        @ [0x0A, 0x0A] @ ascii ''Context:'' @ [0x0A] @ context @ [0x0A, 0x0A]
        @ ascii ''Answer the user's question based on the context provided above.''"
    by (simp add: systemPrompt_def preamble_def)
  have r: "response_text result =
        (if js_truthy (result_content result) then result_content result
         else if js_truthy (result_text result) then result_text result else JString [])"
    by (simp add: response_text_def js_or_def)
  have d: "\<forall>v l result.
        ch_vectorStore h = Some v \<and> ch_llm h = Some l
        \<and> vs_similaritySearch c v query (default_param k (JNumber 3)) = Inr docs
        \<and> llm_invoke c l [SystemMessage (systemPrompt (build_context docs)), HumanMessage query]
            = Inr result \<longrightarrow>
        generateResponse c h query k =
          (Inr (response_text result),
           [RetrievalCall query (default_param k (JNumber 3)),
            GenerationCall [SystemMessage (systemPrompt (build_context docs)), HumanMessage query]])"
    by (simp add: generateResponse_def similaritySearch_def build_messages_def Let_def
        default_param_def)
  have e: "\<forall>v e.
        ch_vectorStore h = Some v
        \<and> vs_similaritySearch c v query (default_param k (JNumber 3)) = Inl e \<longrightarrow>
        generateResponse c h query k = (Inl e, [RetrievalCall query (default_param k (JNumber 3))])"
    by (simp add: generateResponse_def similaritySearch_def Let_def default_param_def)
  from build_context_nth [of docs] n a a1 a2 b r d e show ?thesis by blast
qed

theorem prompt_assembly_witness:
  "build_context [paris_document, \<lparr> pageContent = ascii ''Lyon'' \<rparr>] =
     ascii ''[Document 1]'' @ [0x0A] @ ascii ''Paris is the capital of France.'' @ [0x0A, 0x0A]
     @ ascii ''[Document 2]'' @ [0x0A] @ ascii ''Lyon''
   \<and> generateResponse stub_collaborators ready_handler (ascii ''What is the capital of France?'')
        (JNumber 1) =
       (Inr (JString (ascii ''Paris'')),
        [RetrievalCall (ascii ''What is the capital of France?'') (JNumber 1),
         GenerationCall [SystemMessage (systemPrompt (build_context [paris_document])),
                         HumanMessage (ascii ''What is the capital of France?'')]])
   \<and> generateResponse stub_collaborators ready_handler (ascii ''What is the capital of France?'')
        (JNumber 0) =
       (Inr (JString (ascii ''Paris'')),
        [RetrievalCall (ascii ''What is the capital of France?'') (JNumber 0),
         GenerationCall [SystemMessage (systemPrompt []),
                         HumanMessage (ascii ''What is the capital of France?'')]])
   \<and> generateResponse failing_search ready_handler (ascii ''What is the capital of France?'')
        (JNumber 1) =
       (Inl (Error (ascii ''search failed'')),
        [RetrievalCall (ascii ''What is the capital of France?'') (JNumber 1)])"
proof -
  let ?q = "ascii ''What is the capital of France?''"
  let ?r = "\<lparr> result_content = JString (ascii ''Paris''), result_text = JUndefined \<rparr>"
  note A = prompt_assembly [where ?d1.0 = paris_document and ?d2.0 = "\<lparr> pageContent = ascii ''Lyon'' \<rparr>"
      and result = ?r]
  from A have a: "build_context [paris_document, \<lparr> pageContent = ascii ''Lyon'' \<rparr>] =
     ascii ''[Document 1]'' @ [0x0A] @ pageContent paris_document @ [0x0A, 0x0A]
     @ ascii ''[Document 2]'' @ [0x0A] @ pageContent \<lparr> pageContent = ascii ''Lyon'' \<rparr>"
    by blast
  from A have rt0: "response_text ?r =
        (if js_truthy (result_content ?r) then result_content ?r
         else if js_truthy (result_text ?r) then result_text ?r else JString [])"
    by blast
  have rt: "response_text ?r = JString (ascii ''Paris'')"
    unfolding rt0 by (simp add: ascii_def)
  have a': "build_context [paris_document, \<lparr> pageContent = ascii ''Lyon'' \<rparr>] =
     ascii ''[Document 1]'' @ [0x0A] @ ascii ''Paris is the capital of France.'' @ [0x0A, 0x0A]
     @ ascii ''[Document 2]'' @ [0x0A] @ ascii ''Lyon''"
    unfolding a by (simp add: paris_document_def)
  note B = prompt_assembly [where docs = "[paris_document]" and h = ready_handler
      and c = stub_collaborators and query = ?q and k = "JNumber 1"]
  have hb: "ch_vectorStore ready_handler = Some [paris_document] \<and> ch_llm ready_handler = Some StubLLM
        \<and> vs_similaritySearch stub_collaborators [paris_document] ?q (default_param (JNumber 1) (JNumber 3))
            = Inr [paris_document]
        \<and> llm_invoke stub_collaborators StubLLM
            [SystemMessage (systemPrompt (build_context [paris_document])), HumanMessage ?q]
            = Inr ?r"
    by (simp add: ready_handler_def stub_collaborators_def default_param_def)
  from B hb have b: "generateResponse stub_collaborators ready_handler ?q (JNumber 1) =
          (Inr (response_text ?r),
           [RetrievalCall ?q (default_param (JNumber 1) (JNumber 3)),
            GenerationCall [SystemMessage (systemPrompt (build_context [paris_document])), HumanMessage ?q]])"
    by blast
  note C = prompt_assembly [where docs = "[]" and h = ready_handler
      and c = stub_collaborators and query = ?q and k = "JNumber 0"]
  from C have c0: "build_context [] = []" by blast
  have hc: "ch_vectorStore ready_handler = Some [paris_document] \<and> ch_llm ready_handler = Some StubLLM
        \<and> vs_similaritySearch stub_collaborators [paris_document] ?q (default_param (JNumber 0) (JNumber 3))
            = Inr []
        \<and> llm_invoke stub_collaborators StubLLM
            [SystemMessage (systemPrompt (build_context [])), HumanMessage ?q]
            = Inr ?r"
    by (simp add: ready_handler_def stub_collaborators_def default_param_def)
  from C hc have c: "generateResponse stub_collaborators ready_handler ?q (JNumber 0) =
          (Inr (response_text ?r),
           [RetrievalCall ?q (default_param (JNumber 0) (JNumber 3)),
            GenerationCall [SystemMessage (systemPrompt (build_context [])), HumanMessage ?q]])"
    by blast
  note D = prompt_assembly [where h = ready_handler and c = failing_search and query = ?q
      and k = "JNumber 1"]
  have hd: "ch_vectorStore ready_handler = Some [paris_document]
        \<and> vs_similaritySearch failing_search [paris_document] ?q (default_param (JNumber 1) (JNumber 3))
            = Inl (Error (ascii ''search failed''))"
    by (simp add: ready_handler_def failing_search_def)
  from D hd have d: "generateResponse failing_search ready_handler ?q (JNumber 1) =
        (Inl (Error (ascii ''search failed'')),
         [RetrievalCall ?q (default_param (JNumber 1) (JNumber 3))])"
    by blast
  have dp: "default_param (JNumber 1) (JNumber 3) = JNumber 1"
    and dz: "default_param (JNumber 0) (JNumber 3) = JNumber 0"
    by (simp_all add: default_param_def)
  from a' b c d show ?thesis unfolding rt dp dz c0 by blast
qed

section \<open>The default number of documents\<close>

lemma digit_cases:
  assumes "d < (10::nat)"
  shows "d = 0 \<or> d = 1 \<or> d = 2 \<or> d = 3 \<or> d = 4 \<or> d = 5 \<or> d = 6 \<or> d = 7 \<or> d = 8 \<or> d = 9"
  using assms by arith

lemma digit_char:
  assumes "d < (10::nat)"
  shows "digit_of (of_nat (0x30 + d)) = Some d"
    and "\<not> is_white_space (of_nat (0x30 + d))"
    and "(of_nat (0x30 + d) :: 16 word) \<noteq> 0x2B"
    and "(of_nat (0x30 + d) :: 16 word) \<noteq> 0x2D"
    and "(of_nat (0x30 + d) :: 16 word) \<noteq> 0x78"
    and "(of_nat (0x30 + d) :: 16 word) \<noteq> 0x58"
  using digit_cases [OF assms]
  by (auto simp: digit_of_def is_white_space_def)

lemma nat_to_string_digits: "\<forall>c \<in> set (nat_to_string n). is_decimal c"
proof (induction n rule: nat_to_string.induct)
  case (1 n)
  show ?case
  proof (cases "n < 10")
    case True
    then have "nat_to_string n = [of_nat (0x30 + n)]" by (subst nat_to_string.simps) simp
    with True show ?thesis by (auto simp: is_decimal_def)
  next
    case False
    then have e: "nat_to_string n = nat_to_string (n div 10) @ [of_nat (0x30 + n mod 10)]"
      by (subst nat_to_string.simps) simp
    have "is_decimal (of_nat (0x30 + n mod 10))"
      unfolding is_decimal_def by (rule exI [of _ "n mod 10"]) simp
    with 1 [OF False] e show ?thesis by simp
  qed
qed

lemma nat_to_string_nonempty: "nat_to_string n \<noteq> []"
  by (subst nat_to_string.simps) simp

lemma digits_value_snoc:
  "digits_value R (Z @ [c]) = digits_value R Z * R + (case digit_of c of None \<Rightarrow> 0 | Some d \<Rightarrow> d)"
  by (simp add: digits_value_def)

lemma digits_value_nat_to_string: "digits_value 10 (nat_to_string n) = n"
proof (induction n rule: nat_to_string.induct)
  case (1 n)
  show ?case
  proof (cases "n < 10")
    case True
    then have "nat_to_string n = [of_nat (0x30 + n)]" by (subst nat_to_string.simps) simp
    with digit_char(1) [OF True] show ?thesis by (simp add: digits_value_def)
  next
    case False
    then have e: "nat_to_string n = nat_to_string (n div 10) @ [of_nat (0x30 + n mod 10)]"
      by (subst nat_to_string.simps) simp
    have "n mod 10 < 10" by simp
    from digit_char(1) [OF this] 1 [OF False] show ?thesis
      by (simp add: e digits_value_snoc)
  qed
qed

lemma decimal_facts:
  assumes "is_decimal c"
  shows "is_radix_digit 10 c" "\<not> is_white_space c" "c \<noteq> 0x2B" "c \<noteq> 0x2D" "c \<noteq> 0x78" "c \<noteq> 0x58"
proof -
  from assms obtain d where d: "d < 10" "c = of_nat (0x30 + d)" by (auto simp: is_decimal_def)
  from digit_char [OF d(1)] d(2)
  show "is_radix_digit 10 c" "\<not> is_white_space c" "c \<noteq> 0x2B" "c \<noteq> 0x2D" "c \<noteq> 0x78" "c \<noteq> 0x58"
    using d(1) by (simp_all add: is_radix_digit_def)
qed

lemma parseInt_decimal:
  assumes "s \<noteq> []" and "\<forall>c \<in> set s. is_decimal c"
  shows "parseInt s = to_number False (digits_value 10 s)"
proof -
  from assms(1) obtain c r where s: "s = c # r" by (cases s) auto
  with assms(2) have c: "is_decimal c" by simp
  note cf = decimal_facts [OF c]
  have dw: "dropWhile is_white_space s = s" using s cf by simp
  have nohex: "take 2 s \<noteq> ascii ''0x''" "take 2 s \<noteq> ascii ''0X''"
  proof -
    show "take 2 s \<noteq> ascii ''0x''"
    proof (cases r)
      case Nil
      with s show ?thesis by (simp add: ascii_def)
    next
      case (Cons c' r')
      with s assms(2) have "is_decimal c'" by simp
      from decimal_facts(5) [OF this] s Cons show ?thesis by (simp add: ascii_def)
    qed
    show "take 2 s \<noteq> ascii ''0X''"
    proof (cases r)
      case Nil
      with s show ?thesis by (simp add: ascii_def)
    next
      case (Cons c' r')
      with s assms(2) have "is_decimal c'" by simp
      from decimal_facts(6) [OF this] s Cons show ?thesis by (simp add: ascii_def)
    qed
  qed
  have tw: "takeWhile (is_radix_digit 10) s = s"
    using assms(2) decimal_facts(1) by (simp add: takeWhile_eq_all_conv)
  have S1: "(case s of [] \<Rightarrow> [] | c # r \<Rightarrow> if c = 0x2B \<or> c = 0x2D then r else s) = s"
    using s cf by simp
  have neg: "(case s of [] \<Rightarrow> False | c # x \<Rightarrow> c = 0x2D) = False"
    using s cf by simp
  show ?thesis
    unfolding parseInt_def Let_def dw S1 neg using nohex assms(1) by (simp add: tw)
qed

lemma to_number_exact: "n < 2 ^ 53 \<Longrightarrow> to_number False n = JNumber (real n)"
  by (simp add: to_number_def round_to_double_def)

lemma parseInt_nat_to_string:
  "n < 2 ^ 53 \<Longrightarrow> parseInt (nat_to_string n) = JNumber (real n)"
  using parseInt_decimal [OF nat_to_string_nonempty nat_to_string_digits, of n]
  by (simp add: digits_value_nat_to_string to_number_exact)

lemma parseInt_3: "parseInt (ascii ''3'') = JNumber 3"
  using parseInt_nat_to_string [of 3] by (simp add: ascii_def nat_to_string.simps)

lemma parseInt_0: "parseInt (ascii ''0'') = JNumber 0"
  using parseInt_nat_to_string [of 0] by (simp add: ascii_def nat_to_string.simps)

lemma round_to_double_tie: "round_to_double 9007199254740993 = Some 9007199254740992"
  by (simp add: round_to_double_def bit_length.simps Let_def)

lemma parseInt_rounds:
  "parseInt (ascii ''9007199254740993'') = JNumber 9007199254740992"
proof -
  have e: "ascii ''9007199254740993'' = nat_to_string 9007199254740993"
    by (simp add: nat_to_string.simps ascii_def)
  have "parseInt (nat_to_string 9007199254740993) = to_number False 9007199254740993"
    using parseInt_decimal [OF nat_to_string_nonempty nat_to_string_digits, of 9007199254740993]
    by (simp only: digits_value_nat_to_string)
  then show ?thesis
    unfolding e by (simp add: to_number_def round_to_double_tie)
qed

lemma try_config:
  "doInitialize_try ext pc s = (out, s') \<Longrightarrow> config s' = config s"
  by (cases pc) (auto simp: finish_init_def Let_def split: option.splits sum.splits if_splits)

lemma config_initialize: "config (service (snd (initialize sys))) = config (service sys)"
  by (simp add: initialize_def Let_def split: option.splits)

lemma config_resume: "config (service (doInitialize_resume ext p sys)) = config (service sys)"
proof (cases "p < length (promises sys)")
  case False
  then show ?thesis by (simp add: doInitialize_resume_def)
next
  case True
  show ?thesis
  proof (cases "promises sys ! p")
    case (Pending pc)
    obtain out s' where t: "doInitialize_try ext pc (service sys) = (out, s')"
      by (cases "doInitialize_try ext pc (service sys)")
    from try_config [OF t] True Pending t show ?thesis
      by (cases out) (simp_all add: doInitialize_resume_def)
  next
    case Fulfilled
    with True show ?thesis by (simp add: doInitialize_resume_def)
  next
    case (Rejected e)
    with True show ?thesis by (simp add: doInitialize_resume_def)
  qed
qed

lemma config_step: "config (service (step ev sys)) = config (service sys)"
  by (cases ev)
     (simp_all add: config_initialize config_resume getChatHandler_start_def warmup_start_def)

lemma config_run: "config (service (run evs sys)) = config (service sys)"
  by (induction evs arbitrary: sys) (simp_all add: config_step)

lemma getTopK_reachable:
  "getTopK (service (run evs (boot env))) = parseInt (env_or env ''TOP_K'' ''3'')"
  by (simp add: getTopK_def config_run boot_def RagService_constructor_def)

lemma zero_env_default:
  "getTopK (service (run evs (boot zero_topK_env))) = JNumber 0"
proof -
  have "env_or zero_topK_env ''TOP_K'' ''3'' = ascii ''0''"
    by (simp add: env_or_def zero_topK_env_def ascii_def)
  then show ?thesis by (simp only: getTopK_reachable parseInt_0)
qed

text \<open>
  The claim as stated fails where the configured default is itself 0: with \<open>TOP_K\<close> set
  to \<open>0\<close>, a request with \<open>topK\<close> 0 or omitted is served with \<open>k = 0\<close>.
\<close>

theorem zero_default_counterexample:
  "getTopK (service (run [] (boot zero_topK_env) :: (stub_llm, document list, document) system)) = JNumber 0
   \<and> effective_topK (JNumber 0)
        (service (run [] (boot zero_topK_env) :: (stub_llm, document list, document) system)) = JNumber 0
   \<and> effective_topK JUndefined
        (service (run [] (boot zero_topK_env) :: (stub_llm, document list, document) system)) = JNumber 0"
  using zero_env_default [of "[]"] by (simp add: effective_topK_def js_or_def)

text \<open>
  Claim C10, amended. For a request whose \<open>topK\<close> is omitted, \<open>null\<close> or 0, in any
  reachable state: the \<open>k\<close> computed by \<open>topK || getTopK()\<close> and handed to the streaming
  method is the configured default, not the supplied value; that default is \<open>parseInt\<close>
  of the \<open>TOP_K\<close> variable, or of \<open>3\<close> when it is unset or empty: 3 then, and \<open>n\<close> when
  the variable is the decimal numeral of an \<open>n\<close> below \<open>2 ^ 53\<close> (beyond, the double
  nearest to it: 9007199254740992 for 9007199254740993). That \<open>k\<close> is 0 exactly when the
  configured default is 0. A supplied number other than 0 is kept.
\<close>

theorem default_topK_fallback:
  fixes env :: "string \<Rightarrow> js_string option" and evs :: "('l, 'v, 'd) event list"
  assumes "k0 = JUndefined \<or> k0 = JNull \<or> k0 = JNumber 0"
  shows
  "(let sys = run evs (boot env) in
      effective_topK k0 (service sys) = getTopK (service sys)
      \<and> (\<forall>h query got. getChatHandler_finish sys h = Some got \<longrightarrow>
            streamChat_resume lookup \<lparr> body_query = q, body_topK = k0 \<rparr> (Waiting h query) sys
              = Some (stream_events lookup query (getTopK (service sys)) got))
      \<and> getTopK (service sys) = parseInt (env_or env ''TOP_K'' ''3'')
      \<and> (env ''TOP_K'' = None \<or> env ''TOP_K'' = Some [] \<longrightarrow> getTopK (service sys) = JNumber 3)
      \<and> (\<forall>n. n < 2 ^ 53 \<and> env ''TOP_K'' = Some (nat_to_string n) \<longrightarrow>
            getTopK (service sys) = JNumber (real n))
      \<and> (env ''TOP_K'' = Some (ascii ''9007199254740993'') \<longrightarrow>
            getTopK (service sys) = JNumber 9007199254740992)
      \<and> (effective_topK k0 (service sys) = JNumber 0 \<longleftrightarrow> getTopK (service sys) = JNumber 0)
      \<and> (\<forall>r. r \<noteq> 0 \<longrightarrow> effective_topK (JNumber r) (service sys) = JNumber r))"
proof -
  define sys where "sys = run evs (boot env)"
  have a: "effective_topK k0 (service sys) = getTopK (service sys)"
    using assms by (auto simp: effective_topK_def js_or_def)
  have b: "\<forall>h query got. getChatHandler_finish sys h = Some got \<longrightarrow>
            streamChat_resume lookup \<lparr> body_query = q, body_topK = k0 \<rparr> (Waiting h query) sys
              = Some (stream_events lookup query (getTopK (service sys)) got)"
    using a by (simp add: streamChat_resume_def)
  have c: "getTopK (service sys) = parseInt (env_or env ''TOP_K'' ''3'')"
    unfolding sys_def by (rule getTopK_reachable)
  have d: "env ''TOP_K'' = None \<or> env ''TOP_K'' = Some [] \<longrightarrow> getTopK (service sys) = JNumber 3"
    using c parseInt_3 by (auto simp: env_or_def)
  have e: "\<forall>n. n < 2 ^ 53 \<and> env ''TOP_K'' = Some (nat_to_string n) \<longrightarrow>
            getTopK (service sys) = JNumber (real n)"
    using c by (simp add: env_or_def nat_to_string_nonempty parseInt_nat_to_string)
  have e': "env ''TOP_K'' = Some (ascii ''9007199254740993'') \<longrightarrow>
            getTopK (service sys) = JNumber 9007199254740992"
  proof
    assume "env ''TOP_K'' = Some (ascii ''9007199254740993'')"
    then have "env_or env ''TOP_K'' ''3'' = ascii ''9007199254740993''"
      by (simp add: env_or_def ascii_def)
    with c show "getTopK (service sys) = JNumber 9007199254740992"
      by (simp only: parseInt_rounds)
  qed
  have f: "effective_topK k0 (service sys) = JNumber 0 \<longleftrightarrow> getTopK (service sys) = JNumber 0"
    using a by simp
  have g: "\<forall>r. r \<noteq> 0 \<longrightarrow> effective_topK (JNumber r) (service sys) = JNumber r"
    by (simp add: effective_topK_def js_or_def)
  from a b c d e e' f g show ?thesis unfolding sys_def [symmetric] Let_def by blast
qed

theorem default_topK_fallback_witness:
  "effective_topK (JNumber 0) (service (run [] (boot no_env) :: (stub_llm, document list, document) system))
     = JNumber 3
   \<and> effective_topK JNull (service (run [] (boot no_env) :: (stub_llm, document list, document) system))
     = JNumber 3
   \<and> effective_topK (JNumber 5) (service (run [] (boot no_env) :: (stub_llm, document list, document) system))
     = JNumber 5"
proof -
  have n: "no_env ''TOP_K'' = None" by (simp add: no_env_def)
  have z: "JNumber 0 = JUndefined \<or> JNumber 0 = JNull \<or> JNumber 0 = JNumber 0" by simp
  have u: "JNull = JUndefined \<or> JNull = JNull \<or> JNull = JNumber 0" by simp
  note A = default_topK_fallback [OF z, of "[]" no_env, unfolded Let_def]
  note B = default_topK_fallback [OF u, of "[]" no_env, unfolded Let_def]
  from A n have a: "effective_topK (JNumber 0)
      (service (run [] (boot no_env) :: (stub_llm, document list, document) system)) = JNumber 3"
    by metis
  from B n have b: "effective_topK JNull
      (service (run [] (boot no_env) :: (stub_llm, document list, document) system)) = JNumber 3"
    by metis
  from A have "\<forall>r. r \<noteq> 0 \<longrightarrow> effective_topK (JNumber r)
      (service (run [] (boot no_env) :: (stub_llm, document list, document) system)) = JNumber r"
    by blast
  then have c: "effective_topK (JNumber 5)
      (service (run [] (boot no_env) :: (stub_llm, document list, document) system)) = JNumber 5"
    by simp
  from a b c show ?thesis by blast
qed

section \<open>The end-to-end streaming scenario\<close>

lemma paris_query_valid:
  "valid_query (body_query paris_request) = Some (ascii ''What is the capital of France?'')"
  by (simp add: paris_request_def valid_query_def trim_def is_white_space_def ascii_def)

text \<open>
  Claim C2, evaluated on the code. The knowledge base holds the one document, the
  request asks \<open>What is the capital of France?\<close> with \<open>topK = 1\<close>; it starts the
  initialization, which succeeds; the service is ready, its handler would retrieve the
  document; the controller then calls \<open>chatHandler.streamResponse\<close>, which the class
  does not define, so the request emits one error event and neither the chunk event
  \<open>Paris\<close> nor the completion event.
\<close>

theorem paris_scenario_stream_error:
  "(let (rs, sys1) = streamChat paris_request (boot no_env);
        sys2 = run (replicate 11 (Resume 0 stub_externals)) sys1;
        events = streamChat_resume ChatHandler_streamResponse paris_request rs sys2 in
      rs = Waiting (Awaiting 0) (ascii ''What is the capital of France?'')
      \<and> isReady (service sys2)
      \<and> chatHandler (service sys2) = Some ready_handler
      \<and> similaritySearch stub_collaborators (ch_vectorStore ready_handler)
            (ascii ''What is the capital of France?'') (JNumber 1) = Inr [paris_document]
      \<and> events = Some [ErrorEvent (ascii ''chatHandler.streamResponse is not a function'')]
      \<and> events \<noteq> Some [ChunkEvent (ascii ''Paris''), DoneEvent (ascii ''Stream completed'')])"
proof -
  have i: "fst (initialize (boot no_env :: (stub_llm, document list, document) system)) = Awaiting 0"
    by (simp add: initialize_def boot_def RagService_constructor_def Let_def)
  have "\<not> isInitialized (service (boot no_env :: (stub_llm, document list, document) system))"
    by (simp add: boot_def RagService_constructor_def)
  then have s: "streamChat paris_request (boot no_env :: (stub_llm, document list, document) system)
      = (Waiting (Awaiting 0) (ascii ''What is the capital of France?''), snd (initialize (boot no_env)))"
    using i by (simp add: streamChat_def paris_query_valid getChatHandler_start_def case_prod_unfold)
  have a: "run (replicate 11 (Resume 0 stub_externals)) (snd (initialize (boot no_env)))
      = attempt stub_externals (boot no_env)"
    by (simp only: attempt_boot)
  have r: "similaritySearch stub_collaborators (ch_vectorStore ready_handler)
            (ascii ''What is the capital of France?'') (JNumber 1) = Inr [paris_document]"
    by (simp add: similaritySearch_def stub_collaborators_def ready_handler_def default_param_def)
  have e: "streamChat_resume ChatHandler_streamResponse paris_request
      (Waiting (Awaiting 0) (ascii ''What is the capital of France?''))
      (attempt stub_externals (boot no_env))
      = Some [ErrorEvent (ascii ''chatHandler.streamResponse is not a function'')]"
    by (simp add: streamChat_resume_def getChatHandler_finish_def settled_def stub_attempt
        stream_events_def ChatHandler_streamResponse_def error_message_def)
  have n: "Some [ErrorEvent (ascii ''chatHandler.streamResponse is not a function'')]
      \<noteq> Some [ChunkEvent (ascii ''Paris''), DoneEvent (ascii ''Stream completed'')]"
    by simp
  show ?thesis
    unfolding s Let_def prod.case a e
    using r n stub_attempt by (simp add: isReady_def)
qed

lemma paris_request_waits:
  "streamChat paris_request (boot no_env :: (stub_llm, document list, document) system)
     = (Waiting (Awaiting 0) (ascii ''What is the capital of France?''),
        snd (initialize (boot no_env)))"
proof -
  have i: "fst (initialize (boot no_env :: (stub_llm, document list, document) system)) = Awaiting 0"
    by (simp add: initialize_def boot_def RagService_constructor_def Let_def)
  have "\<not> isInitialized (service (boot no_env :: (stub_llm, document list, document) system))"
    by (simp add: boot_def RagService_constructor_def)
  then show ?thesis
    using i by (simp add: streamChat_def paris_query_valid getChatHandler_start_def case_prod_unfold)
qed

theorem terminal_event_discipline_witness:
  "streamChat_resume (relay failing_trace) paris_request
      (fst (streamChat paris_request (boot no_env :: (stub_llm, document list, document) system)))
      (attempt stub_externals (boot no_env))
     = Some [ChunkEvent (ascii ''Par''), ErrorEvent (ascii ''Streaming error: out of memory'')]
   \<and> streamChat_resume ChatHandler_streamResponse paris_request
      (fst (streamChat paris_request (boot no_env :: (stub_llm, document list, document) system)))
      (snd (streamChat paris_request (boot no_env :: (stub_llm, document list, document) system)))
     = None
   \<and> adapter_stream failing_trace
     = Some ([ascii ''Par''], Thrown (Error (ascii ''Streaming error: out of memory'')))"
proof -
  let ?q = "ascii ''What is the capital of France?''"
  let ?b = "boot no_env :: (stub_llm, document list, document) system"
  let ?tr = "[OnTextChunk (ascii ''Par''), ConsumerTurn, PromptRejected (ascii ''out of memory'')]"
  note T = terminal_event_discipline [where lookup = "relay failing_trace" and body = paris_request
      and sys = ?b and ?sys2.0 = "attempt stub_externals (boot no_env)" and query = ?q
      and k = "JNumber 1"]
  note U = terminal_event_discipline [where lookup = ChatHandler_streamResponse and body = paris_request
      and sys = ?b and ?sys2.0 = "snd (streamChat paris_request ?b)"]
  have w: "fst (streamChat paris_request ?b) = Waiting (Awaiting 0) ?q"
    and w2: "snd (streamChat paris_request ?b) = snd (initialize ?b)"
    by (simp_all add: paris_request_waits)
  have f: "filter is_producer ?tr = map OnTextChunk [ascii ''Par''] @ [PromptRejected (ascii ''out of memory'')]"
    by simp
  have ft: "?tr @ replicate (Suc (length [ascii ''Par''])) ConsumerTurn = failing_trace"
    by (simp add: failing_trace_def)
  have m: "ascii ''Streaming error: '' @ ascii ''out of memory'' = ascii ''Streaming error: out of memory''"
    by (simp add: ascii_def)
  from T f have "adapter_stream (?tr @ replicate (Suc (length [ascii ''Par''])) ConsumerTurn)
            = Some ([ascii ''Par''], Thrown (Error (ascii ''Streaming error: '' @ ascii ''out of memory'')))
          \<and> (\<forall>h. stream_events (relay (?tr @ replicate (Suc (length [ascii ''Par''])) ConsumerTurn)) ?q (JNumber 1) (Inr h)
                 = map ChunkEvent [ascii ''Par''] @ [ErrorEvent (ascii ''Streaming error: '' @ ascii ''out of memory'')])"
    by blast
  then have a: "adapter_stream failing_trace
      = Some ([ascii ''Par''], Thrown (Error (ascii ''Streaming error: out of memory'')))"
    and e: "stream_events (relay failing_trace) ?q (JNumber 1) (Inr ready_handler)
      = [ChunkEvent (ascii ''Par''), ErrorEvent (ascii ''Streaming error: out of memory'')]"
    unfolding ft m by (simp, blast)+
  have g: "getChatHandler_finish (attempt stub_externals (boot no_env)) (Awaiting 0)
      = Some (Inr ready_handler)"
    by (simp add: getChatHandler_finish_def settled_def stub_attempt)
  have k: "effective_topK (body_topK paris_request) (service (attempt stub_externals (boot no_env)))
      = JNumber 1"
    by (simp add: effective_topK_def js_or_def paris_request_def)
  have r: "streamChat_resume (relay failing_trace) paris_request
      (fst (streamChat paris_request (boot no_env :: (stub_llm, document list, document) system)))
      (attempt stub_externals (boot no_env))
     = Some [ChunkEvent (ascii ''Par''), ErrorEvent (ascii ''Streaming error: out of memory'')]"
    unfolding w by (simp add: streamChat_resume_def g k e)
  have p: "settled (snd (streamChat paris_request ?b)) (Awaiting 0) = None"
    unfolding w2 by (simp add: settled_def initialize_def boot_def RagService_constructor_def Let_def)
  from U w p have n: "streamChat_resume ChatHandler_streamResponse paris_request
      (fst (streamChat paris_request ?b)) (snd (streamChat paris_request ?b)) = None"
    by blast
  from r n a show ?thesis by blast
qed

end
